theory Spec2Isabelle
  imports Main
begin

section \<open>The PostHog logging handler of OpenBB\<close>

text \<open>
  A shallow embedding of
  \<^verbatim>\<open>openbb_platform/platform/core/openbb_core/app/logs/handlers/posthog_handler.py\<close>:
  the class \<^verbatim>\<open>PosthogHandler\<close> with its methods \<^verbatim>\<open>emit\<close>, \<^verbatim>\<open>send\<close>,
  \<^verbatim>\<open>log_to_dict\<close>, \<^verbatim>\<open>extract_log_extra\<close> and the property \<^verbatim>\<open>settings\<close>.

  Python strings are modelled as \<^typ>\<open>string\<close> (byte strings; the tags, keys and event
  names of the handler are ASCII). Python dictionaries are association lists in
  insertion order without repeated keys, because \<^verbatim>\<open>send\<close> reads the first key of a
  dictionary. Exceptions are values: a computation that may raise returns
  \<open>py_exception + 'a\<close>, with \<open>Inl\<close> the exception.
\<close>

subsection \<open>Python values, dictionaries and exceptions\<close>

text \<open>
  The values that reach the handler: what \<^verbatim>\<open>json.loads\<close> returns, what a caller puts
  into \<^verbatim>\<open>record.extra\<close>, and the fields of the settings. A float is kept as the text
  of its literal (floating point arithmetic is never performed by the handler).
\<close>

datatype pyval =
    PNone
  | PBool bool
  | PInt int
  | PFloat string
  | PStr string
  | PList "pyval list"
  | PDict "(string \<times> pyval) list"

type_synonym pydict = "(string \<times> pyval) list"

text \<open>
  The exceptions of the model are the failures of processing a record, all of them
  instances of Python's class \<^verbatim>\<open>Exception\<close>, the class that the handler of \<^verbatim>\<open>emit\<close>
  names: \<^verbatim>\<open>json.JSONDecodeError\<close>, the \<^verbatim>\<open>TypeError\<close> of unpacking a value that is not
  a mapping, and \<open>OtherException\<close> for whatever a collaborator (the record, the
  formatter, the decoder, the PostHog client, \<^verbatim>\<open>warnings\<close>) raises, with its message. The
  exceptions that end a program (\<^verbatim>\<open>KeyboardInterrupt\<close>, \<^verbatim>\<open>SystemExit\<close>) do not derive from
  \<^verbatim>\<open>Exception\<close>; they are signals to the interpreter, not failures of the handler, and are
  outside the model.
\<close>

datatype py_exception = JSONDecodeError | TypeError | OtherException string

text \<open>\<^verbatim>\<open>d[k] = v\<close>: an existing key keeps its position, a new key goes last.\<close>

fun dict_set :: "pydict \<Rightarrow> string \<Rightarrow> pyval \<Rightarrow> pydict" where
  "dict_set [] k v = [(k, v)]"
| "dict_set ((k', v') # d) k v =
     (if k' = k then (k, v) # d else (k', v') # dict_set d k v)"

text \<open>\<^verbatim>\<open>{**a, **b}\<close> and \<^verbatim>\<open>a.update(b)\<close>: the items of \<open>b\<close> are stored into \<open>a\<close> in order.\<close>

definition dict_merge :: "pydict \<Rightarrow> pydict \<Rightarrow> pydict" where
  "dict_merge a b = foldl (\<lambda>d (k, v). dict_set d k v) a b"

text \<open>\<^verbatim>\<open>d.pop(k, None)\<close>, as far as the dictionary is concerned.\<close>

definition dict_pop :: "string \<Rightarrow> pydict \<Rightarrow> pydict" where
  "dict_pop k d = filter (\<lambda>(k', v). k' \<noteq> k) d"

text \<open>\<^verbatim>\<open>d.get(k)\<close> is \<^term>\<open>map_of d k\<close>; \<^verbatim>\<open>d.keys()\<close> is \<^term>\<open>map fst d\<close>.\<close>

definition dict_keys :: "pydict \<Rightarrow> string list" where
  "dict_keys d = map fst d"

subsection \<open>Strings\<close>

text \<open>\<^verbatim>\<open>s.startswith(p)\<close>, and a regular expression anchored with \<^verbatim>\<open>^\<close> on a literal.\<close>

definition startswith :: "string \<Rightarrow> string \<Rightarrow> bool" where
  "startswith s p = (take (length p) s = p)"

text \<open>\<^verbatim>\<open>str.lower\<close> on ASCII text: the letters A to Z change, every other byte stays.\<close>

definition lower_char :: "char \<Rightarrow> char" where
  "lower_char c =
     (case map_of (zip ''ABCDEFGHIJKLMNOPQRSTUVWXYZ'' ''abcdefghijklmnopqrstuvwxyz'') c of
        Some l \<Rightarrow> l
      | None \<Rightarrow> c)"

definition lower :: "string \<Rightarrow> string" where
  "lower s = map lower_char s"

subsection \<open>The regular expression of \<open>log_to_dict\<close>\<close>

text \<open>
  \<^verbatim>\<open>log_regex = r"(STARTUP|CMD|ERROR): (.*)"\<close>. At one position of the text the
  expression matches when one of the three tags stands there followed by a colon and a
  space; the second group \<^verbatim>\<open>(.*)\<close> is greedy and the dot matches every character but
  the newline, so the payload is the rest of the text up to the next newline (or the
  end). \<open>match_tag\<close> gives the tag and the text after the colon and the space.
\<close>

definition newline :: char where
  "newline = CHR 0x0A"

definition match_tag :: "string \<Rightarrow> (string \<times> string) option" where
  "match_tag s =
     (if startswith s ''STARTUP: '' then Some (''STARTUP'', drop 9 s)
      else if startswith s ''CMD: '' then Some (''CMD'', drop 5 s)
      else if startswith s ''ERROR: '' then Some (''ERROR'', drop 7 s)
      else None)"

text \<open>
  \<^verbatim>\<open>re.findall(log_regex, log_info)\<close>: the matches from left to right, without overlap.
  The scan tries every position in turn; after a match it goes on where the match
  ended, which is at the newline that stopped the payload, or at the end of the text.
\<close>

function findall :: "string \<Rightarrow> (string \<times> string) list" where
  "findall [] = []"
| "findall (c # cs) =
     (case match_tag (c # cs) of
        Some (tag, rest) \<Rightarrow>
          (tag, takeWhile (\<lambda>x. x \<noteq> newline) rest)
            # findall (dropWhile (\<lambda>x. x \<noteq> newline) rest)
      | None \<Rightarrow> findall cs)"
  by pat_completeness auto

termination findall
proof (relation "measure length")
  show "wf (measure length)" by simp
next
  fix c cs x2 x y
  assume m: "match_tag (c # cs) = Some x2" and x2: "(x, y) = x2"
  have len: "length p \<le> length s" if "startswith s p" for s p :: string
  proof -
    from that have "length (take (length p) s) = length p"
      by (simp add: startswith_def)
    then show ?thesis by simp
  qed
  from m x2 consider "startswith (c # cs) ''STARTUP: ''" "y = drop 9 (c # cs)"
    | "startswith (c # cs) ''CMD: ''" "y = drop 5 (c # cs)"
    | "startswith (c # cs) ''ERROR: ''" "y = drop 7 (c # cs)"
    by (auto simp: match_tag_def split: if_splits)
  then have "length y < length (c # cs)"
  proof cases
    case 1
    with len [of "''STARTUP: ''" "c # cs"] show ?thesis by simp
  next
    case 2
    with len [of "''CMD: ''" "c # cs"] show ?thesis by simp
  next
    case 3
    with len [of "''ERROR: ''" "c # cs"] show ?thesis by simp
  qed
  moreover have "length (dropWhile (\<lambda>x. x \<noteq> newline) y) \<le> length y"
    by (rule length_dropWhile_le)
  ultimately show "(dropWhile (\<lambda>x. x \<noteq> newline) y, c # cs) \<in> measure length"
    by simp
next
  fix c cs :: string and c' :: char
  show "(cs, c' # cs) \<in> measure length" by simp
qed

subsection \<open>A decoder for JSON texts\<close>

text \<open>
  \<^verbatim>\<open>json.loads\<close> belongs to Python's standard library. The handler is verified for
  every decoder (it is a parameter of the model, see \<open>collaborators\<close>); the decoder
  below instantiates the parameter in the closed examples. It follows the standard
  decoder: whitespace is blank, tab, newline and carriage return; the literals are
  \<^verbatim>\<open>null\<close>, \<^verbatim>\<open>true\<close>, \<^verbatim>\<open>false\<close>, \<^verbatim>\<open>NaN\<close>, \<^verbatim>\<open>Infinity\<close> and \<^verbatim>\<open>-Infinity\<close>; a number
  matches \<^verbatim>\<open>(-?(?:0|[1-9][0-9]*))(\.[0-9]+)?([eE][-+]?[0-9]+)?\<close> and is an integer when
  it has neither fraction nor exponent; a string may not hold a control character and
  knows the escapes \<^verbatim>\<open>\" \\ \/ \b \f \n \r \t \uXXXX\<close>; a repeated key of an object
  keeps its first position and its last value; text after the value raises. Every
  failure is a \<^verbatim>\<open>JSONDecodeError\<close>.
\<close>

datatype json_token =
    TLBrace | TRBrace | TLBracket | TRBracket | TColon | TComma | TScalar pyval

definition is_digit :: "char \<Rightarrow> bool" where
  "is_digit c = (c \<in> set ''0123456789'')"

definition digit_value :: "char \<Rightarrow> int" where
  "digit_value c = of_char c - 48"

definition decimal :: "string \<Rightarrow> int" where
  "decimal ds = foldl (\<lambda>n c. 10 * n + digit_value c) 0 ds"

definition hex_value :: "char \<Rightarrow> int option" where
  "hex_value c =
     map_of (zip ''0123456789abcdefABCDEF''
       [0, 1, 2, 3, 4, 5, 6, 7, 8, 9, 10, 11, 12, 13, 14, 15, 10, 11, 12, 13, 14, 15]) c"

text \<open>The four hexadecimal digits of a \<^verbatim>\<open>\uXXXX\<close> escape, and the text after them.\<close>

definition decode_uXXXX :: "string \<Rightarrow> (int \<times> string) option" where
  "decode_uXXXX s =
     (case s of
        a # b # c # d # rest \<Rightarrow>
          (case (hex_value a, hex_value b, hex_value c, hex_value d) of
             (Some x, Some y, Some z, Some w) \<Rightarrow> Some (((x * 16 + y) * 16 + z) * 16 + w, rest)
           | _ \<Rightarrow> None)
      | _ \<Rightarrow> None)"

text \<open>A code point as the bytes of its UTF-8 encoding.\<close>

definition utf8 :: "int \<Rightarrow> string" where
  "utf8 n =
     (if n < 0x80 then [char_of n]
      else if n < 0x800 then [char_of (0xC0 + n div 64), char_of (0x80 + n mod 64)]
      else if n < 0x10000 then
        [char_of (0xE0 + n div 4096), char_of (0x80 + n div 64 mod 64), char_of (0x80 + n mod 64)]
      else
        [char_of (0xF0 + n div 262144), char_of (0x80 + n div 4096 mod 64),
         char_of (0x80 + n div 64 mod 64), char_of (0x80 + n mod 64)])"

definition simple_escape :: "char \<Rightarrow> char option" where
  "simple_escape c =
     map_of [(CHR 0x22, CHR 0x22), (CHR 0x5C, CHR 0x5C), (CHR ''/'', CHR ''/''),
             (CHR ''b'', CHR 0x08), (CHR ''f'', CHR 0x0C), (CHR ''n'', CHR 0x0A),
             (CHR ''r'', CHR 0x0D), (CHR ''t'', CHR 0x09)] c"

text \<open>
  The text after an opening quote: the decoded string and the text after the closing
  quote. A high surrogate followed by an escaped low surrogate is one code point.
\<close>

fun scan_string :: "string \<Rightarrow> (string \<times> string) option" where
  "scan_string [] = None"
| "scan_string (c # cs) =
     (if c = CHR 0x22 then Some ([], cs)
      else if c = CHR 0x5C then
        (case cs of
           [] \<Rightarrow> None
         | e # es \<Rightarrow>
             (if e = CHR ''u'' then
                (case decode_uXXXX es of
                   None \<Rightarrow> None
                 | Some (uni, es') \<Rightarrow>
                     (case (if 0xD800 \<le> uni \<and> uni \<le> 0xDBFF \<and> startswith es' [CHR 0x5C, CHR ''u'']
                            then decode_uXXXX (drop 2 es') else None) of
                        Some (uni2, es'') \<Rightarrow>
                          (if 0xDC00 \<le> uni2 \<and> uni2 \<le> 0xDFFF then
                             map_option
                               (\<lambda>(str, rest).
                                  (utf8 (0x10000 + (uni - 0xD800) * 1024 + (uni2 - 0xDC00)) @ str, rest))
                               (scan_string (drop 6 (drop 4 es)))
                           else map_option (\<lambda>(str, rest). (utf8 uni @ str, rest))
                                  (scan_string (drop 4 es)))
                      | None \<Rightarrow>
                          map_option (\<lambda>(str, rest). (utf8 uni @ str, rest))
                            (scan_string (drop 4 es))))
              else
                (case simple_escape e of
                   None \<Rightarrow> None
                 | Some ch \<Rightarrow> map_option (\<lambda>(str, rest). (ch # str, rest)) (scan_string es))))
      else if (of_char c :: nat) < 0x20 then None
      else map_option (\<lambda>(str, rest). (c # str, rest)) (scan_string cs))"

text \<open>
  A number at the start of the text, after the expression of the standard decoder: the
  value and the text after the number. The fraction and the exponent are taken only
  when they are complete.
\<close>

definition scan_fraction :: "string \<Rightarrow> string \<times> string" where
  "scan_fraction s =
     (case s of
        p # d # ds \<Rightarrow>
          (if p = CHR ''.'' \<and> is_digit d
           then (p # d # takeWhile is_digit ds, dropWhile is_digit ds)
           else ([], s))
      | _ \<Rightarrow> ([], s))"

definition scan_exponent :: "string \<Rightarrow> string \<times> string" where
  "scan_exponent s =
     (case s of
        e # d # ds \<Rightarrow>
          (if e \<in> set ''eE'' \<and> is_digit d
           then (e # d # takeWhile is_digit ds, dropWhile is_digit ds)
           else if e \<in> set ''eE'' \<and> d \<in> set ''-+'' \<and> ds \<noteq> [] \<and> is_digit (hd ds)
           then (e # d # takeWhile is_digit ds, dropWhile is_digit ds)
           else ([], s))
      | _ \<Rightarrow> ([], s))"

definition scan_number :: "string \<Rightarrow> (pyval \<times> string) option" where
  "scan_number s =
     (let neg = startswith s ''-'';
          s1 = (if neg then drop 1 s else s)
      in case s1 of
           [] \<Rightarrow> None
         | d # ds \<Rightarrow>
             (if \<not> is_digit d then None
              else
                let ip = (if d = CHR ''0'' then [d] else d # takeWhile is_digit ds);
                    s2 = (if d = CHR ''0'' then ds else dropWhile is_digit ds);
                    (fp, s3) = scan_fraction s2;
                    (ep, s4) = scan_exponent s3
                in if fp = [] \<and> ep = []
                   then Some (PInt (if neg then - decimal ip else decimal ip), s4)
                   else Some (PFloat ((if neg then ''-'' else []) @ ip @ fp @ ep), s4)))"

text \<open>One scalar at the start of the text: a literal or a number.\<close>

definition scan_scalar :: "string \<Rightarrow> (pyval \<times> string) option" where
  "scan_scalar s =
     (if startswith s ''null'' then Some (PNone, drop 4 s)
      else if startswith s ''true'' then Some (PBool True, drop 4 s)
      else if startswith s ''false'' then Some (PBool False, drop 5 s)
      else case scan_number s of
             Some r \<Rightarrow> Some r
           | None \<Rightarrow>
               (if startswith s ''NaN'' then Some (PFloat ''NaN'', drop 3 s)
                else if startswith s ''Infinity'' then Some (PFloat ''Infinity'', drop 8 s)
                else if startswith s ''-Infinity'' then Some (PFloat ''-Infinity'', drop 9 s)
                else None))"

definition punctuation :: "char \<Rightarrow> json_token option" where
  "punctuation c =
     map_of [(CHR ''{'', TLBrace), (CHR ''}'', TRBrace), (CHR ''['', TLBracket),
             (CHR '']'', TRBracket), (CHR '':'', TColon), (CHR '','', TComma)] c"

definition is_whitespace :: "char \<Rightarrow> bool" where
  "is_whitespace c = (c \<in> {CHR '' '', CHR 0x09, CHR 0x0A, CHR 0x0D})"

text \<open>
  The tokens of a text, or \<open>None\<close> when some part of it is no token. The rest after a
  string or a scalar is a proper suffix of the text; the tests on the lengths say so
  inside the definition, and they hold whenever they are reached (lemma
  \<open>tokenize_tests\<close>).
\<close>

function tokenize :: "string \<Rightarrow> json_token list option" where
  "tokenize [] = Some []"
| "tokenize (c # cs) =
     (if is_whitespace c then tokenize cs
      else case punctuation c of
        Some t \<Rightarrow> map_option (Cons t) (tokenize cs)
      | None \<Rightarrow>
          (if c = CHR 0x22 then
             (case scan_string cs of
                None \<Rightarrow> None
              | Some (str, rest) \<Rightarrow>
                  (if length rest \<le> length cs
                   then map_option (Cons (TScalar (PStr str))) (tokenize rest)
                   else None))
           else
             (case scan_scalar (c # cs) of
                None \<Rightarrow> None
              | Some (v, rest) \<Rightarrow>
                  (if length rest \<le> length cs
                   then map_option (Cons (TScalar v)) (tokenize rest)
                   else None))))"
  by pat_completeness auto
termination
  by (relation "measure length") auto

text \<open>
  The decoder proper reads the tokens with a stack of the arrays and objects that are
  still open. \<open>FArr\<close> holds the elements read so far, \<open>FObj\<close> the items read so far,
  \<open>FKey\<close> the items and the key whose value is being read.
\<close>

datatype frame = FArr "pyval list" | FObj pydict | FKey pydict string

datatype expect =
    ExpValue
  | ExpValueOrClose
  | ExpKeyOrClose
  | ExpKey
  | ExpColon
  | ExpSep
  | ExpEnd pyval

text \<open>A value is complete: it is the result, an element of the array or the value of the key.\<close>

fun complete :: "pyval \<Rightarrow> frame list \<Rightarrow> (expect \<times> frame list) option" where
  "complete v [] = Some (ExpEnd v, [])"
| "complete v (FArr xs # st) = Some (ExpSep, FArr (xs @ [v]) # st)"
| "complete v (FKey d k # st) = Some (ExpSep, FObj (dict_set d k v) # st)"
| "complete v (FObj d # st) = None"

fun close_array :: "frame list \<Rightarrow> (expect \<times> frame list) option" where
  "close_array (FArr xs # st) = complete (PList xs) st"
| "close_array _ = None"

fun close_object :: "frame list \<Rightarrow> (expect \<times> frame list) option" where
  "close_object (FObj d # st) = complete (PDict d) st"
| "close_object _ = None"

fun open_key :: "string \<Rightarrow> frame list \<Rightarrow> (expect \<times> frame list) option" where
  "open_key k (FObj d # st) = Some (ExpColon, FKey d k # st)"
| "open_key k _ = None"

fun begin_value :: "json_token \<Rightarrow> frame list \<Rightarrow> (expect \<times> frame list) option" where
  "begin_value (TScalar v) st = complete v st"
| "begin_value TLBracket st = Some (ExpValueOrClose, FArr [] # st)"
| "begin_value TLBrace st = Some (ExpKeyOrClose, FObj [] # st)"
| "begin_value _ st = None"

fun json_step :: "expect \<Rightarrow> frame list \<Rightarrow> json_token \<Rightarrow> (expect \<times> frame list) option" where
  "json_step ExpValue st t = begin_value t st"
| "json_step ExpValueOrClose st t = (if t = TRBracket then close_array st else begin_value t st)"
| "json_step ExpKeyOrClose st t =
     (case t of TScalar (PStr k) \<Rightarrow> open_key k st | TRBrace \<Rightarrow> close_object st | _ \<Rightarrow> None)"
| "json_step ExpKey st t = (case t of TScalar (PStr k) \<Rightarrow> open_key k st | _ \<Rightarrow> None)"
| "json_step ExpColon st t = (if t = TColon then Some (ExpValue, st) else None)"
| "json_step ExpSep st t =
     (case t of
        TComma \<Rightarrow>
          (case st of
             FArr xs # st' \<Rightarrow> Some (ExpValue, st)
           | FObj d # st' \<Rightarrow> Some (ExpKey, st)
           | _ \<Rightarrow> None)
      | TRBracket \<Rightarrow> close_array st
      | TRBrace \<Rightarrow> close_object st
      | _ \<Rightarrow> None)"
| "json_step (ExpEnd v) st t = None"

fun json_run :: "expect \<Rightarrow> frame list \<Rightarrow> json_token list \<Rightarrow> pyval option" where
  "json_run e st [] = (case e of ExpEnd v \<Rightarrow> Some v | _ \<Rightarrow> None)"
| "json_run e st (t # ts) =
     (case json_step e st t of None \<Rightarrow> None | Some (e', st') \<Rightarrow> json_run e' st' ts)"

definition json_decode :: "string \<Rightarrow> py_exception + pyval" where
  "json_decode s =
     (case tokenize s of
        None \<Rightarrow> Inl JSONDecodeError
      | Some ts \<Rightarrow>
          (case json_run ExpValue [] ts of
             None \<Rightarrow> Inl JSONDecodeError
           | Some v \<Rightarrow> Inr v))"

subsection \<open>Settings, log records and the PostHog client\<close>

text \<open>
  \<^verbatim>\<open>LoggingSettings\<close>: the fields the handler reads. The three fields of the user are
  optional (\<^verbatim>\<open>None\<close> is \<open>None\<close>).
\<close>

record logging_settings =
  app_name :: string
  sub_app_name :: string
  app_id :: string
  session_id :: string
  platform :: string
  python_version :: string
  platform_version :: string
  user_id :: "string option"
  user_email :: "string option"
  user_primary_usage :: "string option"

text \<open>
  \<^verbatim>\<open>logging.LogRecord\<close>, as far as the handler reads it: the level, the outcome of
  \<^verbatim>\<open>record.getMessage()\<close> (rendering the message may raise), the attribute \<^verbatim>\<open>extra\<close>
  when the record has one (a mapping), and of \<^verbatim>\<open>exc_info\<close> the texts
  \<^verbatim>\<open>str(record.exc_info[0])\<close> and \<^verbatim>\<open>str(record.exc_info[1])\<close>.
\<close>

record log_record =
  levelno :: int
  getMessage :: "py_exception + string"
  extra :: "pydict option"
  exc_info :: "(string \<times> string) option"

text \<open>The three calls the handler makes on the client \<^verbatim>\<open>openbb_posthog\<close>.\<close>

datatype call =
    Identify string pydict
  | Alias string string
  | Capture string string pydict

text \<open>
  What the handler calls and does not define: \<^verbatim>\<open>logging.getLevelName\<close>,
  \<^verbatim>\<open>FormatterWithExceptions.filter_log_line\<close>, \<^verbatim>\<open>json.loads\<close>, the PostHog client (its
  answer to a call may depend on the calls made before; it returns a value or raises),
  \<^verbatim>\<open>Env().DEBUG_MODE\<close> and \<^verbatim>\<open>warnings.warn\<close> (which raises when warnings are errors).
  The theorems hold for every choice of them.
\<close>

record collaborators =
  getLevelName :: "int \<Rightarrow> string"
  filter_log_line :: "string \<Rightarrow> py_exception + string"
  json_loads :: "string \<Rightarrow> py_exception + pyval"
  posthog :: "call list \<Rightarrow> call \<Rightarrow> py_exception + pyval"
  debug_mode :: bool
  warn :: "pyval \<Rightarrow> py_exception option"

subsection \<open>The state of the handler\<close>

text \<open>
  The handler keeps a reference to its settings object, \<^verbatim>\<open>self._settings\<close>, and the
  flag \<^verbatim>\<open>self.logged_in\<close>. Settings objects live in a store: \<open>heap\<close> gives the object at
  an address, and the addresses below \<open>next_ref\<close> are allocated. The state also records
  what the handler did to the outside: the calls made on the client, the results passed
  to \<^verbatim>\<open>warnings.warn\<close>, and the errors handed to \<^verbatim>\<open>handleError\<close>.
\<close>

record handler_state =
  heap :: "nat \<Rightarrow> logging_settings"
  next_ref :: nat
  settings_ref :: nat
  logged_in :: bool
  calls :: "call list"
  warned :: "pyval list"
  handled :: "(log_record \<times> py_exception) list"

text \<open>\<^verbatim>\<open>__init__(self, settings)\<close>.\<close>

definition init :: "nat \<Rightarrow> handler_state \<Rightarrow> handler_state" where
  "init settings s = s\<lparr>settings_ref := settings, logged_in := False\<rparr>"

text \<open>The object \<^verbatim>\<open>self._settings\<close> refers to.\<close>

definition cur_settings :: "handler_state \<Rightarrow> logging_settings" where
  "cur_settings s = heap s (settings_ref s)"

text \<open>
  The property \<^verbatim>\<open>settings\<close> on this state, in which a settings object is the record of
  the attributes the handler reads. Writing it stores the reference it is given. Reading
  it returns \<^verbatim>\<open>deepcopy(self._settings)\<close>; on an object whose attributes are immutable
  that is one new object with the same attributes, at the next free address (lemma
  \<open>settings_get_deepcopy\<close> derives this from the model of \<^verbatim>\<open>copy.deepcopy\<close> below). What
  the property does on settings objects of any shape is \<open>property_get\<close> and
  \<open>property_set\<close> below.
\<close>

definition settings_get :: "handler_state \<Rightarrow> nat \<times> handler_state" where
  "settings_get s =
     (next_ref s,
      s\<lparr>heap := (heap s)(next_ref s := heap s (settings_ref s)),
        next_ref := Suc (next_ref s)\<rparr>)"

definition settings_set :: "nat \<Rightarrow> handler_state \<Rightarrow> handler_state" where
  "settings_set settings s = s\<lparr>settings_ref := settings\<rparr>"

subsection \<open>Python objects and \<^verbatim>\<open>copy.deepcopy\<close>\<close>

text \<open>
  The property \<^verbatim>\<open>settings\<close> returns \<^verbatim>\<open>deepcopy(self._settings)\<close>, and what a caller may
  assign to it is not checked. For the property the store is therefore looked at as
  Python has it: a value is either immutable (\<^verbatim>\<open>None\<close>, a boolean, a number, a string;
  \<^verbatim>\<open>copy.deepcopy\<close> returns such a value as it is) or a reference to a mutable object of
  the store: a list, a dictionary with string keys, or an instance of a class with its
  attributes (\<^verbatim>\<open>__dict__\<close>). The store is the list of the objects allocated so far; the
  address of an object is its index.
\<close>

datatype pyatom = ANone | ABool bool | AInt int | AFloat string | AStr string

datatype ref = Imm pyatom | Ptr nat

datatype pyobject =
    PyList "ref list"
  | PyDict "(string \<times> ref) list"
  | PyInstance string "(string \<times> ref) list"

text \<open>The values an object holds, in order, and the same object holding other values.\<close>

fun children :: "pyobject \<Rightarrow> ref list" where
  "children (PyList xs) = xs"
| "children (PyDict kvs) = map snd kvs"
| "children (PyInstance c kvs) = map snd kvs"

fun rebuild :: "pyobject \<Rightarrow> ref list \<Rightarrow> pyobject" where
  "rebuild (PyList xs) ys = PyList ys"
| "rebuild (PyDict kvs) ys = PyDict (zip (map fst kvs) ys)"
| "rebuild (PyInstance c kvs) ys = PyInstance c (zip (map fst kvs) ys)"

text \<open>
  \<^verbatim>\<open>copy.deepcopy(x, memo)\<close>, for objects of classes that do not define their own
  \<^verbatim>\<open>__deepcopy__\<close> or \<^verbatim>\<open>__reduce_ex__\<close>. The dictionary \<^verbatim>\<open>memo\<close> maps the address of an
  object to the address of its copy. An object found in \<^verbatim>\<open>memo\<close> is not copied again.
  Otherwise a new, empty object of the same kind is allocated and entered into \<^verbatim>\<open>memo\<close>,
  then the values of the object are copied one after the other, with the same \<^verbatim>\<open>memo\<close>,
  and the copies are stored into the new object (\<^verbatim>\<open>_deepcopy_list\<close>, \<^verbatim>\<open>_deepcopy_dict\<close>,
  \<^verbatim>\<open>_reconstruct\<close>). So an object that is reached twice is copied once, and an object that
  contains itself gets a copy that contains itself.

  The first argument bounds the depth of the recursion: \<open>None\<close> is the
  \<^verbatim>\<open>RecursionError\<close> of an object nested deeper than that. (A reference to an address
  that is not allocated does not exist in Python; the function returns \<open>None\<close> there.)
\<close>

type_synonym copy_state = "(nat \<rightharpoonup> nat) \<times> pyobject list"

fun copy_all ::
  "(ref \<Rightarrow> copy_state \<Rightarrow> (ref \<times> copy_state) option) \<Rightarrow> ref list \<Rightarrow> copy_state
     \<Rightarrow> (ref list \<times> copy_state) option"
where
  "copy_all f [] ms = Some ([], ms)"
| "copy_all f (x # xs) ms =
     (case f x ms of
        None \<Rightarrow> None
      | Some (y, ms1) \<Rightarrow>
          (case copy_all f xs ms1 of
             None \<Rightarrow> None
           | Some (ys, ms2) \<Rightarrow> Some (y # ys, ms2)))"

primrec deepcopy :: "nat \<Rightarrow> ref \<Rightarrow> copy_state \<Rightarrow> (ref \<times> copy_state) option" where
  "deepcopy 0 = (\<lambda>x ms. None)"
| "deepcopy (Suc n) =
     (\<lambda>x ms.
        case x of
          Imm v \<Rightarrow> Some (x, ms)
        | Ptr a \<Rightarrow>
            (case fst ms a of
               Some y \<Rightarrow> Some (Ptr y, ms)
             | None \<Rightarrow>
                 if length (snd ms) \<le> a then None
                 else
                   (case copy_all (deepcopy n) (children (snd ms ! a))
                           ((fst ms)(a \<mapsto> length (snd ms)),
                            snd ms @ [rebuild (snd ms ! a) []]) of
                      None \<Rightarrow> None
                    | Some (ys, memo, st) \<Rightarrow>
                        Some (Ptr (length (snd ms)), memo,
                              st[length (snd ms) := rebuild (snd ms ! a) ys]))))"

text \<open>
  The handler as Python has it, as far as the property goes: the store and the reference
  \<^verbatim>\<open>self._settings\<close>. The setter is \<^verbatim>\<open>self._settings = settings\<close>, the getter is
  \<^verbatim>\<open>return deepcopy(self._settings)\<close>, called with an empty \<^verbatim>\<open>memo\<close>. The recursion gets
  one level more than there are objects, which is enough for every well-formed store
  (lemma \<open>deepcopy_returns\<close>): the recursion limit of the interpreter is not modelled.
\<close>

record python_handler =
  objects :: "pyobject list"
  self_settings :: ref

definition property_set :: "ref \<Rightarrow> python_handler \<Rightarrow> python_handler" where
  "property_set settings p = p\<lparr>self_settings := settings\<rparr>"

definition property_get :: "python_handler \<Rightarrow> (ref \<times> python_handler) option" where
  "property_get p =
     (case deepcopy (Suc (length (objects p))) (self_settings p) (Map.empty, objects p) of
        None \<Rightarrow> None
      | Some (y, memo, st) \<Rightarrow> Some (y, p\<lparr>objects := st\<rparr>))"










fun immutable :: "ref \<Rightarrow> bool" where
  "immutable (Imm v) = True"
| "immutable (Ptr a) = False"

definition flat :: "pyobject \<Rightarrow> bool" where
  "flat obj = list_all immutable (children obj)"




text \<open>
  The settings objects of the handler's state as Python objects: an instance of
  \<^verbatim>\<open>LoggingSettings\<close> with the ten attributes the handler reads, all of them immutable
  (a string, or \<^verbatim>\<open>None\<close>); and the handler's state as far as the property goes.
\<close>

fun atom_of :: "string option \<Rightarrow> pyatom" where
  "atom_of None = ANone"
| "atom_of (Some x) = AStr x"

definition settings_object :: "logging_settings \<Rightarrow> pyobject" where
  "settings_object st =
     PyInstance ''LoggingSettings''
       [(''app_name'', Imm (AStr (app_name st))),
        (''sub_app_name'', Imm (AStr (sub_app_name st))),
        (''app_id'', Imm (AStr (app_id st))),
        (''session_id'', Imm (AStr (session_id st))),
        (''platform'', Imm (AStr (platform st))),
        (''python_version'', Imm (AStr (python_version st))),
        (''platform_version'', Imm (AStr (platform_version st))),
        (''user_id'', Imm (atom_of (user_id st))),
        (''user_email'', Imm (atom_of (user_email st))),
        (''user_primary_usage'', Imm (atom_of (user_primary_usage st)))]"

definition python_view :: "handler_state \<Rightarrow> python_handler" where
  "python_view s =
     \<lparr>objects = map (\<lambda>a. settings_object (heap s a)) [0..<next_ref s],
      self_settings = Ptr (settings_ref s)\<rparr>"

subsection \<open>The methods of the handler\<close>

text \<open>\<^verbatim>\<open>AllowedEvents\<close>: the values of the enumeration, in its order.\<close>

definition AllowedEvents :: "string list" where
  "AllowedEvents = [''log_startup'', ''log_cmd'', ''log_error'', ''log_warning'']"

text \<open>
  \<^verbatim>\<open>log_to_dict\<close>: the loop over the matches stores each decoded payload under its tag;
  a payload that does not decode raises out of the loop.
\<close>

fun log_to_dict_loop ::
  "(string \<Rightarrow> py_exception + pyval) \<Rightarrow> (string \<times> string) list \<Rightarrow> pydict \<Rightarrow> py_exception + pydict"
where
  "log_to_dict_loop loads [] log_dict = Inr log_dict"
| "log_to_dict_loop loads ((tag, payload) # logs) log_dict =
     (case loads payload of
        Inl e \<Rightarrow> Inl e
      | Inr v \<Rightarrow> log_to_dict_loop loads logs (dict_set log_dict tag v))"

definition log_to_dict :: "collaborators \<Rightarrow> string \<Rightarrow> py_exception + pydict" where
  "log_to_dict env log_info = log_to_dict_loop (json_loads env) (findall log_info) []"

text \<open>\<^verbatim>\<open>extract_log_extra\<close>.\<close>

definition opt_str :: "string option \<Rightarrow> pyval" where
  "opt_str x = (case x of None \<Rightarrow> PNone | Some s \<Rightarrow> PStr s)"

definition truthy :: "string option \<Rightarrow> bool" where
  "truthy x = (case x of None \<Rightarrow> False | Some s \<Rightarrow> s \<noteq> [])"

definition seeded :: "logging_settings \<Rightarrow> pydict" where
  "seeded st =
     [(''appName'', PStr (app_name st)),
      (''subAppName'', PStr (sub_app_name st)),
      (''appId'', PStr (app_id st)),
      (''sessionId'', PStr (session_id st)),
      (''platform'', PStr (platform st)),
      (''pythonVersion'', PStr (python_version st)),
      (''obbPlatformVersion'', PStr (platform_version st))]"

definition extract_log_extra :: "logging_settings \<Rightarrow> log_record \<Rightarrow> pydict" where
  "extract_log_extra st record =
     (let log_extra = seeded st;
          log_extra = (if truthy (user_id st)
                       then dict_set log_extra ''userId'' (opt_str (user_id st))
                       else log_extra);
          log_extra = (case extra record of
                         Some x \<Rightarrow> dict_merge log_extra x
                       | None \<Rightarrow> log_extra)
      in case exc_info record of
           Some (t, v) \<Rightarrow>
             dict_set log_extra ''exception'' (PDict [(''type'', PStr t), (''value'', PStr v)])
         | None \<Rightarrow> log_extra)"

text \<open>
  \<^verbatim>\<open>send\<close>, lines 66 to 84: from the record to the event that will be forwarded, or to
  \<open>None\<close> when \<^verbatim>\<open>send\<close> returns early. \<open>noise\<close> is the test
  \<^verbatim>\<open>re.match(r"^(QUEUE|START|END|INPUT:)", log_line)\<close>.
\<close>

definition noise :: "string \<Rightarrow> bool" where
  "noise log_line =
     (startswith log_line ''QUEUE'' \<or> startswith log_line ''START''
      \<or> startswith log_line ''END'' \<or> startswith log_line ''INPUT:'')"

text \<open>
  Lines 73 to 78, the body of \<^verbatim>\<open>if log_dict := self.log_to_dict(...)\<close> for a mapping that
  is not empty: the new event name, the new \<^verbatim>\<open>log_dict\<close> and the new \<^verbatim>\<open>log_extra\<close>.
  \<^verbatim>\<open>{**log_extra, **log_dict}\<close> raises \<^verbatim>\<open>TypeError\<close> when the payload of \<^verbatim>\<open>STARTUP\<close> is
  not a mapping.
\<close>

definition structured ::
  "pydict \<Rightarrow> pydict \<Rightarrow> py_exception + (string \<times> pydict \<times> pydict)" where
  "structured log_dict log_extra =
     (let event_name = ''log_'' @ lower (hd (dict_keys log_dict)) in
      case (case map_of log_dict ''STARTUP'' of Some v \<Rightarrow> v | None \<Rightarrow> PDict log_dict) of
        PDict d \<Rightarrow> Inr (event_name, d, dict_pop ''message'' (dict_merge log_extra d))
      | _ \<Rightarrow> Inl TypeError)"

definition send_event ::
  "collaborators \<Rightarrow> logging_settings \<Rightarrow> log_record \<Rightarrow> py_exception + (string \<times> pydict) option"
where
  "send_event env st record =
     (let level_name = getLevelName env (levelno record) in
      case getMessage record of
        Inl e \<Rightarrow> Inl e
      | Inr text \<Rightarrow>
     (case filter_log_line env text of
        Inl e \<Rightarrow> Inl e
      | Inr log_line \<Rightarrow>
     (let log_extra = extract_log_extra st record;
          log_extra = dict_merge log_extra
                        [(''level'', PStr level_name), (''message'', PStr log_line)];
          event_name = ''log_'' @ lower level_name
      in case log_to_dict env log_line of
           Inl e \<Rightarrow> Inl e
         | Inr log_dict \<Rightarrow>
        (case (if log_dict \<noteq> [] then structured log_dict log_extra
               else Inr (event_name, log_dict, log_extra)) of
           Inl e \<Rightarrow> Inl e
         | Inr (event_name, log_dict, log_extra) \<Rightarrow>
             (if noise log_line \<and> log_dict = [] then Inr None
              else if event_name \<notin> set AllowedEvents then Inr None
              else Inr (Some (event_name, log_extra)))))))"

text \<open>A call on the client: the call is recorded, whether it returns or raises.\<close>

definition call_posthog ::
  "collaborators \<Rightarrow> call \<Rightarrow> handler_state \<Rightarrow> (py_exception + pyval) \<times> handler_state" where
  "call_posthog env c s = (posthog env (calls s) c, s\<lparr>calls := calls s @ [c]\<rparr>)"

text \<open>\<^verbatim>\<open>send\<close>, lines 86 to 95: the flag is set, then \<^verbatim>\<open>identify\<close>, then \<^verbatim>\<open>alias\<close>.\<close>

definition send_identify ::
  "collaborators \<Rightarrow> handler_state \<Rightarrow> (py_exception + unit) \<times> handler_state" where
  "send_identify env s =
     (let st = cur_settings s in
      case user_id st of
        None \<Rightarrow> (Inr (), s)
      | Some uid \<Rightarrow>
          (if \<not> logged_in s \<and> uid \<noteq> [] then
             (let s1 = s\<lparr>logged_in := True\<rparr> in
              case call_posthog env
                     (Identify uid
                        [(''email'', opt_str (user_email st)),
                         (''primaryUsage'', opt_str (user_primary_usage st))]) s1 of
                (Inl e, s2) \<Rightarrow> (Inl e, s2)
              | (Inr r, s2) \<Rightarrow>
                  (case call_posthog env (Alias uid (app_id st)) s2 of
                     (Inl e, s3) \<Rightarrow> (Inl e, s3)
                   | (Inr r', s3) \<Rightarrow> (Inr (), s3)))
           else (Inr (), s)))"

text \<open>\<^verbatim>\<open>send\<close>, lines 97 to 103: \<^verbatim>\<open>capture\<close>, and the warning in debug mode.\<close>

definition send_capture ::
  "collaborators \<Rightarrow> string \<Rightarrow> pydict \<Rightarrow> handler_state \<Rightarrow> (py_exception + unit) \<times> handler_state"
where
  "send_capture env event_name log_extra s =
     (case call_posthog env (Capture (app_id (cur_settings s)) event_name log_extra) s of
        (Inl e, s1) \<Rightarrow> (Inl e, s1)
      | (Inr result, s1) \<Rightarrow>
          (if debug_mode env then
             (let s2 = s1\<lparr>warned := warned s1 @ [result]\<rparr> in
              case warn env result of
                Some e \<Rightarrow> (Inl e, s2)
              | None \<Rightarrow> (Inr (), s2))
           else (Inr (), s1)))"

text \<open>\<^verbatim>\<open>send\<close>: the outcome (\<open>Inl\<close> the exception that leaves \<^verbatim>\<open>send\<close>) and the new state.\<close>

definition send ::
  "collaborators \<Rightarrow> log_record \<Rightarrow> handler_state \<Rightarrow> (py_exception + unit) \<times> handler_state" where
  "send env record s =
     (case send_event env (cur_settings s) record of
        Inl e \<Rightarrow> (Inl e, s)
      | Inr None \<Rightarrow> (Inr (), s)
      | Inr (Some (event_name, log_extra)) \<Rightarrow>
          (case send_identify env s of
             (Inl e, s1) \<Rightarrow> (Inl e, s1)
           | (Inr u, s1) \<Rightarrow> send_capture env event_name log_extra s1))"

text \<open>
  \<^verbatim>\<open>emit\<close>: \<^verbatim>\<open>try: self.send(record=record) except Exception: self.handleError(record)\<close>.
  \<^verbatim>\<open>handleError\<close> is inherited from \<^verbatim>\<open>logging.Handler\<close>: it reports the error and
  returns; the model records the record and the exception.
\<close>

definition handleError :: "log_record \<Rightarrow> py_exception \<Rightarrow> handler_state \<Rightarrow> handler_state" where
  "handleError record e s = s\<lparr>handled := handled s @ [(record, e)]\<rparr>"

definition emit ::
  "collaborators \<Rightarrow> log_record \<Rightarrow> handler_state \<Rightarrow> (py_exception + unit) \<times> handler_state" where
  "emit env record s =
     (case send env record s of
        (Inl e, s1) \<Rightarrow> (Inr (), handleError record e s1)
      | (Inr u, s1) \<Rightarrow> (Inr (), s1))"

text \<open>
  The life of one handler: the records it is given and the settings it is assigned, in
  any order.
\<close>

datatype action = Emit log_record | Configure nat | ReadSettings

fun run :: "collaborators \<Rightarrow> action list \<Rightarrow> handler_state \<Rightarrow> handler_state" where
  "run env [] s = s"
| "run env (Emit record # as) s = run env as (snd (emit env record s))"
| "run env (Configure settings # as) s = run env as (settings_set settings s)"
| "run env (ReadSettings # as) s = run env as (snd (settings_get s))"

text \<open>The calls of a kind among the calls made.\<close>

fun is_identify :: "call \<Rightarrow> bool" where
  "is_identify (Identify u p) = True"
| "is_identify _ = False"

fun is_alias :: "call \<Rightarrow> bool" where
  "is_alias (Alias u a) = True"
| "is_alias _ = False"

text \<open>
  The calls one \<^verbatim>\<open>emit\<close> makes on the client: what it appends to the calls made so far.
  \<open>accepted\<close> says that \<^verbatim>\<open>send\<close> gets past its two early returns without raising.
\<close>

definition sent :: "collaborators \<Rightarrow> log_record \<Rightarrow> handler_state \<Rightarrow> call list" where
  "sent env record s = drop (length (calls s)) (calls (snd (emit env record s)))"

definition accepted :: "collaborators \<Rightarrow> logging_settings \<Rightarrow> log_record \<Rightarrow> bool" where
  "accepted env st record =
     (case send_event env st record of Inr (Some ev) \<Rightarrow> True | _ \<Rightarrow> False)"

definition identity_call :: "call \<Rightarrow> bool" where
  "identity_call c = (is_identify c \<or> is_alias c)"

text \<open>The \<^verbatim>\<open>identify\<close> call for a user of a settings object.\<close>

definition identify_of :: "logging_settings \<Rightarrow> string \<Rightarrow> call" where
  "identify_of st uid =
     Identify uid [(''email'', opt_str (user_email st)),
                   (''primaryUsage'', opt_str (user_primary_usage st))]"

subsection \<open>Concrete collaborators, settings and records\<close>

text \<open>
  \<^verbatim>\<open>logging.getLevelName\<close> with the level names Python registers at start, and
  \<^verbatim>\<open>"Level %s" % level\<close> for every other level.
\<close>

fun digits :: "nat \<Rightarrow> string" where
  "digits n =
     (if n < 10 then [''0123456789'' ! n]
      else digits (n div 10) @ [''0123456789'' ! (n mod 10)])"

definition str_int :: "int \<Rightarrow> string" where
  "str_int i = (if i < 0 then ''-'' @ digits (nat (- i)) else digits (nat i))"

definition std_getLevelName :: "int \<Rightarrow> string" where
  "std_getLevelName level =
     (case map_of [(50, ''CRITICAL''), (40, ''ERROR''), (30, ''WARNING''), (20, ''INFO''),
                   (10, ''DEBUG''), (0, ''NOTSET'')] level of
        Some name \<Rightarrow> name
      | None \<Rightarrow> ''Level '' @ str_int level)"

text \<open>
  A quiet environment: the filter returns the text as it is, the client accepts every
  call and returns \<^verbatim>\<open>None\<close>, debug mode is off.
\<close>

definition quiet_env :: collaborators where
  "quiet_env =
     \<lparr>getLevelName = std_getLevelName,
      filter_log_line = (\<lambda>text. Inr text),
      json_loads = json_decode,
      posthog = (\<lambda>history c. Inr PNone),
      debug_mode = False,
      warn = (\<lambda>result. None)\<rparr>"

text \<open>The same environment with a client whose \<^verbatim>\<open>identify\<close> raises.\<close>

definition failing_env :: collaborators where
  "failing_env =
     quiet_env\<lparr>posthog :=
       (\<lambda>history c. if is_identify c then Inl (OtherException ''connection refused'')
                      else Inr PNone)\<rparr>"

definition anonymous :: logging_settings where
  "anonymous =
     \<lparr>app_name = ''platform'', sub_app_name = ''sdk'', app_id = ''app-1'',
      session_id = ''session-1'', platform = ''Linux'', python_version = ''3.11'',
      platform_version = ''4.0'', user_id = None, user_email = None,
      user_primary_usage = None\<rparr>"

definition known_user :: logging_settings where
  "known_user =
     anonymous\<lparr>user_id := Some ''user-1'', user_email := Some ''u@example.org'',
       user_primary_usage := Some ''trading''\<rparr>"

text \<open>
  A store with one settings object, at address 0 (address 1 is the next free one), on
  which nothing has been called yet; and a new handler made on that object.
\<close>

definition store_with :: "logging_settings \<Rightarrow> handler_state" where
  "store_with st =
     \<lparr>heap = (\<lambda>a. st), next_ref = 1, settings_ref = 0, logged_in = False,
      calls = [], warned = [], handled = []\<rparr>"

definition fresh :: "logging_settings \<Rightarrow> handler_state" where
  "fresh st = init 0 (store_with st)"

definition info_record :: "string \<Rightarrow> log_record" where
  "info_record text = \<lparr>levelno = 20, getMessage = Inr text, extra = None, exc_info = None\<rparr>"

definition error_record :: "string \<Rightarrow> log_record" where
  "error_record text = \<lparr>levelno = 40, getMessage = Inr text, extra = None, exc_info = None\<rparr>"

text \<open>A message of two lines, each with a tag.\<close>

definition error_then_startup :: string where
  "error_then_startup =
     ''ERROR: {\"code\": 7}'' @ [newline] @ ''STARTUP: {\"message\": \"up\", \"a\": 1}''"

text \<open>The two messages of the specification's examples.\<close>

definition startup_line :: string where
  "startup_line = ''STARTUP: {\"a\": 1}''"

definition cmd_line :: string where
  "cmd_line = ''CMD: {\"cmd\": \"price\"}''"

text \<open>A line with two tags, and two lines with the same tag.\<close>

definition cmd_and_error :: string where
  "cmd_and_error = ''CMD: 1 ERROR: 2''"

definition cmd_twice :: string where
  "cmd_twice = ''CMD: 1'' @ [newline] @ ''CMD: 2''"





section \<open>Properties\<close>

subsection \<open>Dictionaries\<close>

lemma map_of_dict_set: "map_of (dict_set d k v) = (map_of d)(k \<mapsto> v)"
  by (induction d) (auto simp: fun_eq_iff)

lemma dict_keys_Cons: "dict_keys ((k, v) # d) = k # dict_keys d"
  by (simp add: dict_keys_def)

lemma keys_dict_set: "set (dict_keys (dict_set d k v)) = insert k (set (dict_keys d))"
  by (induction d k v rule: dict_set.induct) (auto simp: dict_keys_def)

lemma dict_set_not_empty: "dict_set d k v \<noteq> []"
  by (induction d k v rule: dict_set.induct) auto

lemma hd_keys_dict_set:
  "d \<noteq> [] \<Longrightarrow> hd (dict_keys (dict_set d k v)) = hd (dict_keys d)"
  by (induction d k v rule: dict_set.induct) (auto simp: dict_keys_def)

lemma distinct_dict_set:
  "distinct (dict_keys d) \<Longrightarrow> distinct (dict_keys (dict_set d k v))"
proof (induction d)
  case Nil
  then show ?case by (simp add: dict_keys_def)
next
  case (Cons x d)
  obtain k' v' where x: "x = (k', v')" by (cases x)
  from Cons.prems have "distinct (dict_keys d)" by (simp add: dict_keys_def)
  then have ih: "distinct (dict_keys (dict_set d k v))" by (rule Cons.IH)
  show ?case
  proof (cases "k' = k")
    case True
    with Cons.prems x show ?thesis by (simp add: dict_keys_def)
  next
    case False
    from Cons.prems x have "k' \<notin> set (dict_keys d)" by (simp add: dict_keys_def)
    with False have "k' \<notin> set (dict_keys (dict_set d k v))" by (simp add: keys_dict_set)
    with ih False x show ?thesis by (simp add: dict_keys_def)
  qed
qed

lemma dict_merge_Nil: "dict_merge a [] = a"
  by (simp add: dict_merge_def)

lemma dict_merge_Cons: "dict_merge a ((k, v) # b) = dict_merge (dict_set a k v) b"
  by (simp add: dict_merge_def)

lemma map_of_dict_merge: "map_of (dict_merge a b) = map_of a ++ map_of (rev b)"
proof (induction b arbitrary: a)
  case Nil
  then show ?case by (simp add: dict_merge_Nil)
next
  case (Cons x b)
  obtain k v where x: "x = (k, v)" by (cases x)
  have "map_of (dict_merge a (x # b)) = map_of (dict_set a k v) ++ map_of (rev b)"
    by (simp add: x dict_merge_Cons Cons.IH)
  also have "\<dots> = map_of a ++ map_of (rev (x # b))"
    by (auto simp: x map_of_dict_set fun_eq_iff map_add_def split: option.splits)
  finally show ?case .
qed

lemma keys_dict_merge:
  "set (dict_keys (dict_merge a b)) = set (dict_keys a) \<union> set (dict_keys b)"
proof (induction b arbitrary: a)
  case Nil
  then show ?case by (simp add: dict_merge_Nil dict_keys_def)
next
  case (Cons x b)
  obtain k v where x: "x = (k, v)" by (cases x)
  have "set (dict_keys (dict_merge a (x # b)))
          = insert k (set (dict_keys a)) \<union> set (dict_keys b)"
    by (simp add: x dict_merge_Cons Cons.IH keys_dict_set)
  then show ?case by (simp add: x dict_keys_Cons)
qed

lemma map_of_dict_pop: "map_of (dict_pop k d) k' = (if k' = k then None else map_of d k')"
  by (induction d) (auto simp: dict_pop_def)

lemma keys_dict_pop: "set (dict_keys (dict_pop k d)) = set (dict_keys d) - {k}"
  by (induction d) (auto simp: dict_pop_def dict_keys_def)


subsection \<open>The matches of the regular expression\<close>

lemma match_tag_tag:
  "match_tag s = Some (tag, rest) \<Longrightarrow> tag \<in> {''STARTUP'', ''CMD'', ''ERROR''}"
  by (auto simp: match_tag_def split: if_splits)

lemma findall_tags:
  "(tag, payload) \<in> set (findall s) \<Longrightarrow> tag \<in> {''STARTUP'', ''CMD'', ''ERROR''}"
proof (induction s rule: findall.induct)
  case 1
  then show ?case by simp
next
  case (2 c cs)
  show ?case
  proof (cases "match_tag (c # cs)")
    case None
    with 2 show ?thesis by simp
  next
    case (Some m)
    obtain t rest where m: "m = (t, rest)" by (cases m)
    from "2.prems" Some m have
      "(tag, payload) = (t, takeWhile (\<lambda>x. x \<noteq> newline) rest)
       \<or> (tag, payload) \<in> set (findall (dropWhile (\<lambda>x. x \<noteq> newline) rest))"
      by simp
    then show ?thesis
    proof
      assume "(tag, payload) = (t, takeWhile (\<lambda>x. x \<noteq> newline) rest)"
      with match_tag_tag [of "c # cs" t rest] Some m show ?thesis by simp
    next
      assume "(tag, payload) \<in> set (findall (dropWhile (\<lambda>x. x \<noteq> newline) rest))"
      with "2.IH"(2) [OF Some m [symmetric]] show ?thesis by simp
    qed
  qed
qed

lemma findall_payload_line:
  "(tag, payload) \<in> set (findall s) \<Longrightarrow> newline \<notin> set payload"
proof (induction s rule: findall.induct)
  case 1
  then show ?case by simp
next
  case (2 c cs)
  show ?case
  proof (cases "match_tag (c # cs)")
    case None
    with 2 show ?thesis by simp
  next
    case (Some m)
    obtain t rest where m: "m = (t, rest)" by (cases m)
    from "2.prems" Some m have
      "payload = takeWhile (\<lambda>x. x \<noteq> newline) rest
       \<or> (tag, payload) \<in> set (findall (dropWhile (\<lambda>x. x \<noteq> newline) rest))"
      by auto
    then show ?thesis
    proof
      assume p: "payload = takeWhile (\<lambda>x. x \<noteq> newline) rest"
      show ?thesis
      proof
        assume "newline \<in> set payload"
        with p show False by (auto dest: set_takeWhileD)
      qed
    next
      assume "(tag, payload) \<in> set (findall (dropWhile (\<lambda>x. x \<noteq> newline) rest))"
      with "2.IH"(2) [OF Some m [symmetric]] show ?thesis by simp
    qed
  qed
qed

lemma findall_one_line: "newline \<notin> set s \<Longrightarrow> length (findall s) \<le> 1"
proof (induction s rule: findall.induct)
  case 1
  then show ?case by simp
next
  case (2 c cs)
  show ?case
  proof (cases "match_tag (c # cs)")
    case None
    with 2 show ?thesis by simp
  next
    case (Some m)
    obtain t rest where m: "m = (t, rest)" by (cases m)
    from Some m have "set rest \<subseteq> set (c # cs)"
      by (auto simp: match_tag_def split: if_splits dest: in_set_dropD)
    with "2.prems" have "newline \<notin> set rest" by auto
    then have dw: "dropWhile (\<lambda>x. x \<noteq> newline) rest = []" by auto
    show ?thesis using Some m by (simp add: dw)
  qed
qed

lemma findall_match:
  assumes "match_tag s = Some (tag, rest)"
  shows "findall s = (tag, takeWhile (\<lambda>x. x \<noteq> newline) rest)
                       # findall (dropWhile (\<lambda>x. x \<noteq> newline) rest)"
proof (cases s)
  case Nil
  with assms show ?thesis by (simp add: match_tag_def startswith_def)
next
  case (Cons c cs)
  with assms show ?thesis by simp
qed


subsection \<open>The loop of \<open>log_to_dict\<close>\<close>

lemma loop_keys:
  "log_to_dict_loop loads ms acc = Inr d
   \<Longrightarrow> set (dict_keys d) = set (dict_keys acc) \<union> fst ` set ms"
  by (induction loads ms acc rule: log_to_dict_loop.induct)
     (auto simp: keys_dict_set split: sum.splits)

lemma loop_distinct:
  "log_to_dict_loop loads ms acc = Inr d \<Longrightarrow> distinct (dict_keys acc)
   \<Longrightarrow> distinct (dict_keys d)"
  by (induction loads ms acc rule: log_to_dict_loop.induct)
     (auto simp: distinct_dict_set split: sum.splits)

lemma loop_hd:
  "log_to_dict_loop loads ms acc = Inr d \<Longrightarrow> acc \<noteq> []
   \<Longrightarrow> hd (dict_keys d) = hd (dict_keys acc)"
  by (induction loads ms acc rule: log_to_dict_loop.induct)
     (auto simp: hd_keys_dict_set dict_set_not_empty split: sum.splits)

lemma loop_first:
  assumes "log_to_dict_loop loads ms [] = Inr d" and "ms \<noteq> []"
  shows "hd (dict_keys d) = fst (hd ms)"
proof -
  from assms(2) obtain t p ms' where ms: "ms = (t, p) # ms'"
    by (cases ms) auto
  with assms(1) obtain v where "loads p = Inr v"
    and "log_to_dict_loop loads ms' [(t, v)] = Inr d"
    by (auto split: sum.splits)
  then have "hd (dict_keys d) = hd (dict_keys [(t, v)])"
    using loop_hd [of loads ms' "[(t, v)]" d] by simp
  with ms show ?thesis by (simp add: dict_keys_def)
qed

lemma loop_empty:
  "log_to_dict_loop loads ms acc = Inr d \<Longrightarrow> d = [] \<longleftrightarrow> ms = [] \<and> acc = []"
  by (induction loads ms acc rule: log_to_dict_loop.induct)
     (auto simp: dict_set_not_empty split: sum.splits)

lemma loop_raises:
  "isl (log_to_dict_loop loads ms acc) \<longleftrightarrow> (\<exists>m \<in> set ms. isl (loads (snd m)))"
  by (induction loads ms acc rule: log_to_dict_loop.induct)
     (auto split: sum.splits)

lemma loop_values:
  "log_to_dict_loop loads ms acc = Inr d
   \<Longrightarrow> rel_option (\<lambda>v r. r = Inr v) (map_of d tag)
        (case map_of (rev ms) tag of
           Some p \<Rightarrow> Some (loads p)
         | None \<Rightarrow> map_option Inr (map_of acc tag))"
proof (induction loads ms acc arbitrary: d rule: log_to_dict_loop.induct)
  case (1 loads log_dict)
  then show ?case by (cases "map_of log_dict tag") auto
next
  case (2 loads t payload logs log_dict)
  from "2.prems" obtain v where v: "loads payload = Inr v"
    and run: "log_to_dict_loop loads logs (dict_set log_dict t v) = Inr d"
    by (auto split: sum.splits)
  from "2.IH" [OF v run]
  have ih: "rel_option (\<lambda>v r. r = Inr v) (map_of d tag)
        (case map_of (rev logs) tag of
           Some p \<Rightarrow> Some (loads p)
         | None \<Rightarrow> map_option Inr (map_of (dict_set log_dict t v) tag))" .
  show ?case
  proof (cases "map_of (rev logs) tag")
    case (Some p)
    with ih show ?thesis by (simp add: map_add_def)
  next
    case None
    with ih v show ?thesis
      by (auto simp: map_add_def map_of_dict_set split: option.splits)
  qed
qed


subsection \<open>The effect of \<open>send\<close> and \<open>emit\<close>\<close>

lemma cur_settings_frame [simp]:
  "cur_settings (s\<lparr>logged_in := b\<rparr>) = cur_settings s"
  "cur_settings (s\<lparr>calls := cs\<rparr>) = cur_settings s"
  "cur_settings (s\<lparr>warned := ws\<rparr>) = cur_settings s"
  "cur_settings (s\<lparr>handled := hs\<rparr>) = cur_settings s"
  by (simp_all add: cur_settings_def)

lemma send_event_allowed:
  assumes "send_event env st record = Inr (Some (event_name, log_extra))"
  shows "event_name \<in> set AllowedEvents"
proof -
  from assms show ?thesis
    unfolding send_event_def Let_def
    by (auto split: sum.splits if_splits prod.splits)
qed

lemma send_identify_skip:
  assumes "logged_in s \<or> \<not> truthy (user_id (cur_settings s))"
  shows "send_identify env s = (Inr (), s)"
  using assms by (auto simp: send_identify_def truthy_def Let_def split: option.splits)

lemma send_identify_first:
  assumes "\<not> logged_in s" and "user_id (cur_settings s) = Some uid" and "uid \<noteq> []"
  shows "send_identify env s =
     (case posthog env (calls s) (identify_of (cur_settings s) uid) of
        Inl e \<Rightarrow>
          (Inl e, s\<lparr>logged_in := True,
                    calls := calls s @ [identify_of (cur_settings s) uid]\<rparr>)
      | Inr r \<Rightarrow>
          (case posthog env (calls s @ [identify_of (cur_settings s) uid])
                  (Alias uid (app_id (cur_settings s))) of
             Inl e \<Rightarrow> Inl e
           | Inr r' \<Rightarrow> Inr (),
           s\<lparr>logged_in := True,
             calls := calls s @ [identify_of (cur_settings s) uid,
                                 Alias uid (app_id (cur_settings s))]\<rparr>))"
  using assms
  by (auto simp: send_identify_def call_posthog_def identify_of_def Let_def
           split: sum.splits)

lemma send_identify_effect:
  "\<exists>ids. snd (send_identify env s)
           = s\<lparr>logged_in := logged_in s \<or> ids \<noteq> [], calls := calls s @ ids\<rparr>
         \<and> (\<forall>c \<in> set ids. identity_call c)
         \<and> (logged_in s \<longrightarrow> ids = [])"
proof (cases "logged_in s \<or> \<not> truthy (user_id (cur_settings s))")
  case True
  then have "send_identify env s = (Inr (), s)" by (rule send_identify_skip)
  then show ?thesis by (intro exI [of _ "[]"]) simp
next
  case False
  then obtain uid where u: "\<not> logged_in s" "user_id (cur_settings s) = Some uid" "uid \<noteq> []"
    by (auto simp: truthy_def split: option.splits)
  show ?thesis
  proof (cases "posthog env (calls s) (identify_of (cur_settings s) uid)")
    case (Inl e)
    with send_identify_first [OF u, of env] u(1) show ?thesis
      by (intro exI [of _ "[identify_of (cur_settings s) uid]"])
         (simp add: identity_call_def identify_of_def)
  next
    case (Inr r)
    with send_identify_first [OF u, of env] u(1) show ?thesis
      by (intro exI [of _ "[identify_of (cur_settings s) uid,
                            Alias uid (app_id (cur_settings s))]"])
         (simp add: identity_call_def identify_of_def)
  qed
qed

lemma send_capture_effect:
  "\<exists>ws. snd (send_capture env event_name log_extra s)
          = s\<lparr>calls := calls s @ [Capture (app_id (cur_settings s)) event_name log_extra],
              warned := warned s @ ws\<rparr>"
proof (cases "posthog env (calls s) (Capture (app_id (cur_settings s)) event_name log_extra)")
  case (Inl e)
  then show ?thesis
    by (intro exI [of _ "[]"]) (simp add: send_capture_def call_posthog_def)
next
  case (Inr r)
  show ?thesis
  proof (cases "debug_mode env")
    case True
    with Inr show ?thesis
      by (intro exI [of _ "[r]"])
         (simp add: send_capture_def call_posthog_def Let_def split: option.splits)
  next
    case False
    with Inr show ?thesis
      by (intro exI [of _ "[]"]) (simp add: send_capture_def call_posthog_def)
  qed
qed


lemma send_effect:
  "\<exists>ids cap ws.
     snd (send env record s)
       = s\<lparr>logged_in := logged_in s \<or> ids \<noteq> [], calls := calls s @ ids @ cap,
           warned := warned s @ ws\<rparr>
     \<and> (\<forall>c \<in> set ids. identity_call c)
     \<and> (logged_in s \<longrightarrow> ids = [])
     \<and> (\<not> accepted env (cur_settings s) record \<longrightarrow> ids = [] \<and> cap = [])
     \<and> (cap = [] \<or> (\<exists>event_name log_extra.
            send_event env (cur_settings s) record = Inr (Some (event_name, log_extra))
            \<and> cap = [Capture (app_id (cur_settings s)) event_name log_extra]))"
proof (cases "send_event env (cur_settings s) record")
  case (Inl e)
  then have "send env record s = (Inl e, s)" by (simp add: send_def)
  then show ?thesis by (intro exI [of _ "[]"]) simp
next
  case (Inr r)
  show ?thesis
  proof (cases r)
    case None
    with Inr have "send env record s = (Inr (), s)" by (simp add: send_def)
    then show ?thesis by (intro exI [of _ "[]"]) simp
  next
    case (Some ev)
    obtain event_name log_extra where ev: "ev = (event_name, log_extra)" by (cases ev)
    obtain ids where ids: "snd (send_identify env s)
           = s\<lparr>logged_in := logged_in s \<or> ids \<noteq> [], calls := calls s @ ids\<rparr>"
      "\<forall>c \<in> set ids. identity_call c" "logged_in s \<longrightarrow> ids = []"
      using send_identify_effect [of env s] by blast
    obtain x s1 where x: "send_identify env s = (x, s1)" by (cases "send_identify env s")
    with ids(1) have s1: "s1 = s\<lparr>logged_in := logged_in s \<or> ids \<noteq> [], calls := calls s @ ids\<rparr>"
      by simp
    show ?thesis
    proof (cases x)
      case (Inl e)
      with Inr Some ev x have "send env record s = (Inl e, s1)" by (simp add: send_def)
      with s1 ids(2,3) Inr Some ev show ?thesis
        by (intro exI [of _ ids] exI [of _ "[]"]) (simp add: accepted_def)
    next
      case (Inr u)
      with \<open>send_event env (cur_settings s) record = Inr r\<close> Some ev x
      have send: "send env record s = send_capture env event_name log_extra s1"
        by (simp add: send_def)
      obtain ws where "snd (send_capture env event_name log_extra s1)
          = s1\<lparr>calls := calls s1 @ [Capture (app_id (cur_settings s1)) event_name log_extra],
               warned := warned s1 @ ws\<rparr>"
        using send_capture_effect [of env event_name log_extra s1] by blast
      with send s1 have "snd (send env record s)
          = s\<lparr>logged_in := logged_in s \<or> ids \<noteq> [],
              calls := calls s @ ids @ [Capture (app_id (cur_settings s)) event_name log_extra],
              warned := warned s @ ws\<rparr>"
        by simp
      with ids(2,3) \<open>send_event env (cur_settings s) record = Inr r\<close> Some ev show ?thesis
        by (intro exI [of _ ids]
              exI [of _ "[Capture (app_id (cur_settings s)) event_name log_extra]"]
              exI [of _ ws]) (simp add: accepted_def)
    qed
  qed
qed

lemma emit_snd:
  "\<exists>hs. snd (emit env record s) = (snd (send env record s))\<lparr>handled := handled s @ hs\<rparr>"
proof -
  obtain ids cap ws where
    "snd (send env record s)
       = s\<lparr>logged_in := logged_in s \<or> ids \<noteq> [], calls := calls s @ ids @ cap,
           warned := warned s @ ws\<rparr>"
    using send_effect [of env "record" s] by blast
  then have h: "handled (snd (send env record s)) = handled s"
    by simp
  obtain x s1 where x: "send env record s = (x, s1)" by (cases "send env record s")
  with h have h1: "handled s1 = handled s" by simp
  show ?thesis
  proof (cases x)
    case (Inl e)
    with x h1 show ?thesis
      by (intro exI [of _ "[(record, e)]"]) (simp add: emit_def handleError_def)
  next
    case (Inr u)
    with x h1 [symmetric] show ?thesis
      by (intro exI [of _ "[]"]) (simp add: emit_def)
  qed
qed

lemma sent_send:
  "sent env record s = drop (length (calls s)) (calls (snd (send env record s)))"
proof -
  obtain hs where "snd (emit env record s) = (snd (send env record s))\<lparr>handled := handled s @ hs\<rparr>"
    using emit_snd [of env "record" s] by blast
  then show ?thesis by (simp add: sent_def)
qed

lemma accepted_iff:
  "accepted env st r \<longleftrightarrow> (\<exists>e p. send_event env st r = Inr (Some (e, p)))"
  by (auto simp: accepted_def split: sum.splits option.splits)

lemma cur_settings_fresh: "cur_settings (fresh st) = st"
  by (simp add: cur_settings_def fresh_def store_with_def init_def)

subsection \<open>The scanners of the decoder consume their input\<close>

lemma scan_string_bounded:
  "length s \<le> n \<Longrightarrow> scan_string s = Some (str, rest) \<Longrightarrow> length rest < length s"
proof (induction n arbitrary: s str rest)
  case 0
  then show ?case by simp
next
  case (Suc n)
  note step = Suc.IH [rotated]
  show ?case
  proof (cases s)
    case Nil
    with Suc.prems show ?thesis by simp
  next
    case (Cons c cs)
    with Suc.prems show ?thesis
      by (auto split: if_splits list.splits option.splits prod.splits dest!: step)
  qed
qed

lemma scan_string_shorter:
  "scan_string s = Some (str, rest) \<Longrightarrow> length rest < length s"
  using scan_string_bounded [of s "length s"] by simp

lemma scan_fraction_shorter: "length (snd (scan_fraction s)) \<le> length s"
  using length_dropWhile_le [of is_digit]
  by (auto simp: scan_fraction_def le_SucI split: list.splits)

lemma scan_exponent_shorter: "length (snd (scan_exponent s)) \<le> length s"
  using length_dropWhile_le [of is_digit]
  by (auto simp: scan_exponent_def le_SucI split: list.splits)

lemma scan_number_shorter:
  assumes "scan_number s = Some (v, rest)"
  shows "length rest < length s"
proof -
  define s1 where "s1 = (if startswith s ''-'' then drop 1 s else s)"
  from assms obtain d ds where s1: "s1 = d # ds"
    by (cases s1) (auto simp: scan_number_def Let_def s1_def)
  define s2 where "s2 = (if d = CHR ''0'' then ds else dropWhile is_digit ds)"
  have "length s2 \<le> length ds"
    by (simp add: s2_def length_dropWhile_le)
  moreover have "length s1 \<le> length s"
    by (simp add: s1_def)
  moreover from assms s1 have "rest = snd (scan_exponent (snd (scan_fraction s2)))"
    by (auto simp: scan_number_def Let_def s1_def s2_def split: if_splits prod.splits)
  moreover have "length (snd (scan_exponent (snd (scan_fraction s2)))) \<le> length s2"
    using scan_exponent_shorter [of "snd (scan_fraction s2)"] scan_fraction_shorter [of s2]
    by simp
  ultimately show ?thesis using s1 by simp
qed

lemma scan_scalar_shorter:
  assumes "scan_scalar s = Some (v, rest)"
  shows "length rest < length s"
proof -
  have lit: "length (drop n s) < length s" if "startswith s p" and "p \<noteq> []" and "0 < n" for p n
  proof -
    from that(1,2) have "s \<noteq> []" by (auto simp: startswith_def)
    with that(3) show ?thesis by simp
  qed
  from assms show ?thesis
    by (auto simp: scan_scalar_def split: if_splits option.splits
             dest: scan_number_shorter intro: lit)
qed

text \<open>The two tests on lengths in \<open>tokenize\<close> hold whenever they are reached.\<close>

lemma tokenize_tests:
  "scan_string cs = Some (str, rest) \<Longrightarrow> length rest \<le> length cs"
  "scan_scalar (c # cs) = Some (v, rest) \<Longrightarrow> length rest \<le> length cs"
  using scan_string_shorter [of cs str rest] scan_scalar_shorter [of "c # cs" v rest]
  by simp_all

subsection \<open>\<^verbatim>\<open>copy.deepcopy\<close> returns a deep copy\<close>

lemma rebuild_children: "rebuild obj (children obj) = obj"
  by (cases obj) (simp_all add: zip_map_fst_snd)
















text \<open>
  The typed getter \<open>settings_get\<close> of the handler's state is the getter of the property
  on the settings objects as Python objects: the deep copy of an instance whose
  attributes are immutable is one new instance with the same attributes.
\<close>

lemma copy_all_immutable:
  "list_all immutable xs \<Longrightarrow> copy_all (deepcopy (Suc k)) xs ms = Some (xs, ms)"
proof (induction xs)
  case Nil
  show ?case by simp
next
  case (Cons x xs)
  then show ?case by (cases x) simp_all
qed

lemma deepcopy_flat:
  assumes "a < length st" and "flat (st ! a)"
  shows "deepcopy (Suc (Suc k)) (Ptr a) (Map.empty, st)
           = Some (Ptr (length st), [a \<mapsto> length st], st @ [st ! a])"
proof -
  from assms(2) have "copy_all (deepcopy (Suc k)) (children (st ! a))
      ([a \<mapsto> length st], st @ [rebuild (st ! a) []])
      = Some (children (st ! a), [a \<mapsto> length st], st @ [rebuild (st ! a) []])"
    by (intro copy_all_immutable) (simp add: flat_def)
  with assms(1) show ?thesis by (simp add: rebuild_children)
qed

lemma flat_settings_object: "flat (settings_object st)"
  by (simp add: flat_def settings_object_def)

lemma python_view_settings_set:
  "python_view (settings_set S s) = property_set (Ptr S) (python_view s)"
  by (simp add: python_view_def settings_set_def property_set_def)

lemma settings_get_deepcopy:
  assumes "settings_ref s < next_ref s"
  shows "property_get (python_view s)
           = Some (Ptr (fst (settings_get s)), python_view (snd (settings_get s)))"
proof -
  define st where "st = map (\<lambda>a. settings_object (heap s a)) [0..<next_ref s]"
  have len: "length st = next_ref s" by (simp add: st_def)
  from assms have obj: "st ! settings_ref s = settings_object (heap s (settings_ref s))"
    by (simp add: st_def)
  from assms obtain k where k: "next_ref s = Suc k" by (cases "next_ref s") auto
  have "deepcopy (Suc (Suc k)) (Ptr (settings_ref s)) (Map.empty, st)
      = Some (Ptr (length st), [settings_ref s \<mapsto> length st], st @ [st ! settings_ref s])"
    using assms len obj by (intro deepcopy_flat) (simp_all add: flat_settings_object)
  with k len obj have get: "property_get (python_view s)
      = Some (Ptr (next_ref s),
          \<lparr>objects = st @ [settings_object (heap s (settings_ref s))],
           self_settings = Ptr (settings_ref s)\<rparr>)"
    by (simp add: property_get_def python_view_def st_def)
  have "map (\<lambda>a. settings_object (((heap s)(next_ref s := heap s (settings_ref s))) a))
          [0..<next_ref s] = st"
    unfolding st_def by (rule map_cong [OF refl]) simp
  then have "python_view (snd (settings_get s))
      = \<lparr>objects = st @ [settings_object (heap s (settings_ref s))],
         self_settings = Ptr (settings_ref s)\<rparr>"
    by (simp add: python_view_def settings_get_def)
  with get show ?thesis by (simp add: settings_get_def)
qed

section \<open>The claims\<close>

subsection \<open>C1: no exception leaves \<open>emit\<close>\<close>

text \<open>
  Claim C1. For every log record and every exception raised while the record is
  processed (classification, decoding of the JSON payload, enrichment, identity,
  forwarding), \<^verbatim>\<open>emit\<close> catches the exception and hands it, with the record, to
  \<^verbatim>\<open>handleError\<close>; no exception leaves \<^verbatim>\<open>emit\<close>. In the model: \<^verbatim>\<open>emit\<close> always returns
  normally; when \<^verbatim>\<open>send\<close> raises \<open>e\<close>, the state \<^verbatim>\<open>send\<close> left behind is kept and the pair
  of the record and \<open>e\<close> is added to the errors handled; when \<^verbatim>\<open>send\<close> returns, \<^verbatim>\<open>emit\<close>
  adds nothing.
\<close>

theorem emit_catches_every_exception:
  "fst (emit env record s) = Inr ()
   \<and> (\<forall>e s1. send env record s = (Inl e, s1)
         \<longrightarrow> emit env record s = (Inr (), s1\<lparr>handled := handled s @ [(record, e)]\<rparr>))
   \<and> (\<forall>s1. send env record s = (Inr (), s1) \<longrightarrow> emit env record s = (Inr (), s1))"
proof (intro conjI allI impI)
  show "fst (emit env record s) = Inr ()"
    by (simp add: emit_def split: prod.splits sum.splits)
next
  fix e s1
  assume raised: "send env record s = (Inl e, s1)"
  obtain ids cap ws where
    "snd (send env record s)
       = s\<lparr>logged_in := logged_in s \<or> ids \<noteq> [], calls := calls s @ ids @ cap,
           warned := warned s @ ws\<rparr>"
    using send_effect [of env "record" s] by blast
  with raised have "handled s1 = handled s" by simp
  with raised show "emit env record s = (Inr (), s1\<lparr>handled := handled s @ [(record, e)]\<rparr>)"
    by (simp add: emit_def handleError_def)
next
  fix s1
  assume "send env record s = (Inr (), s1)"
  then show "emit env record s = (Inr (), s1)"
    by (simp add: emit_def)
qed

text \<open>
  Three records whose processing raises at different stages: a payload that is not
  JSON (\<^verbatim>\<open>JSONDecodeError\<close> while decoding), a \<^verbatim>\<open>STARTUP\<close> payload that is not a mapping
  (\<^verbatim>\<open>TypeError\<close> while merging), and a client whose \<^verbatim>\<open>identify\<close> raises. Each time
  \<^verbatim>\<open>emit\<close> returns with the error handled.
\<close>

theorem emit_catches_every_exception_witness:
  "emit quiet_env (error_record ''CMD: {'') (fresh anonymous)
     = (Inr (), (fresh anonymous)\<lparr>handled := [(error_record ''CMD: {'', JSONDecodeError)]\<rparr>)
   \<and> emit quiet_env (error_record ''STARTUP: 5'') (fresh anonymous)
     = (Inr (), (fresh anonymous)\<lparr>handled := [(error_record ''STARTUP: 5'', TypeError)]\<rparr>)
   \<and> emit failing_env (error_record ''no data'') (fresh known_user)
     = (Inr (),
        (fresh known_user)
          \<lparr>logged_in := True,
           calls := [Identify ''user-1''
                       [(''email'', PStr ''u@example.org''),
                        (''primaryUsage'', PStr ''trading'')]],
           handled := [(error_record ''no data'', OtherException ''connection refused'')]\<rparr>)"
proof -
  have none: "handled (fresh st) = []" "calls (fresh st) = []" "\<not> logged_in (fresh st)" for st
    by (simp_all add: fresh_def store_with_def init_def)
  have "send_event quiet_env anonymous (error_record ''CMD: {'') = Inl JSONDecodeError"
    by code_simp
  then have "send quiet_env (error_record ''CMD: {'') (fresh anonymous)
      = (Inl JSONDecodeError, fresh anonymous)"
    by (simp add: send_def cur_settings_fresh)
  with emit_catches_every_exception [of quiet_env "error_record ''CMD: {''" "fresh anonymous"]
  have json: "emit quiet_env (error_record ''CMD: {'') (fresh anonymous)
     = (Inr (), (fresh anonymous)\<lparr>handled := [(error_record ''CMD: {'', JSONDecodeError)]\<rparr>)"
    by (simp add: none)
  have "send_event quiet_env anonymous (error_record ''STARTUP: 5'') = Inl TypeError"
    by code_simp
  then have "send quiet_env (error_record ''STARTUP: 5'') (fresh anonymous)
      = (Inl TypeError, fresh anonymous)"
    by (simp add: send_def cur_settings_fresh)
  with emit_catches_every_exception [of quiet_env "error_record ''STARTUP: 5''" "fresh anonymous"]
  have type: "emit quiet_env (error_record ''STARTUP: 5'') (fresh anonymous)
     = (Inr (), (fresh anonymous)\<lparr>handled := [(error_record ''STARTUP: 5'', TypeError)]\<rparr>)"
    by (simp add: none)
  have "accepted failing_env known_user (error_record ''no data'')"
    by code_simp
  then obtain e p where
    ev: "send_event failing_env known_user (error_record ''no data'') = Inr (Some (e, p))"
    by (auto simp: accepted_iff)
  have uk: "user_id known_user = Some ''user-1''"
    by (simp add: known_user_def)
  have idf: "identify_of known_user ''user-1''
      = Identify ''user-1''
          [(''email'', PStr ''u@example.org''), (''primaryUsage'', PStr ''trading'')]"
    by (simp add: identify_of_def known_user_def anonymous_def opt_str_def)
  have "posthog failing_env h (identify_of known_user ''user-1'')
      = Inl (OtherException ''connection refused'')" for h
    by (simp add: failing_env_def identify_of_def)
  then have "send_identify failing_env (fresh known_user)
      = (Inl (OtherException ''connection refused''),
         (fresh known_user)
           \<lparr>logged_in := True, calls := [identify_of known_user ''user-1'']\<rparr>)"
    using send_identify_first [of "fresh known_user" "''user-1''" failing_env]
    by (simp add: cur_settings_fresh uk none)
  with ev have "send failing_env (error_record ''no data'') (fresh known_user)
      = (Inl (OtherException ''connection refused''),
         (fresh known_user)
           \<lparr>logged_in := True, calls := [identify_of known_user ''user-1'']\<rparr>)"
    by (simp add: send_def cur_settings_fresh)
  with emit_catches_every_exception [of failing_env "error_record ''no data''" "fresh known_user"]
  have ident: "emit failing_env (error_record ''no data'') (fresh known_user)
     = (Inr (),
        (fresh known_user)
          \<lparr>logged_in := True,
           calls := [Identify ''user-1''
                       [(''email'', PStr ''u@example.org''),
                        (''primaryUsage'', PStr ''trading'')]],
           handled := [(error_record ''no data'', OtherException ''connection refused'')]\<rparr>)"
    by (simp add: none idf)
  from json type ident show ?thesis by simp
qed

subsection \<open>Records without a structured tag\<close>

lemma log_to_dict_no_match: "findall line = [] \<Longrightarrow> log_to_dict env line = Inr []"
  by (simp add: log_to_dict_def)

lemma send_event_plain:
  assumes "getMessage record = Inr msg" and "filter_log_line env msg = Inr line"
    and "findall line = []"
  shows "send_event env st record =
     (if noise line \<or> ''log_'' @ lower (getLevelName env (levelno record)) \<notin> set AllowedEvents
      then Inr None
      else Inr (Some (''log_'' @ lower (getLevelName env (levelno record)),
             dict_merge (extract_log_extra st record)
               [(''level'', PStr (getLevelName env (levelno record))),
                (''message'', PStr line)])))"
  using assms by (simp add: send_event_def Let_def log_to_dict_no_match)

lemma send_not_accepted:
  assumes "send_event env (cur_settings s) record = Inr None"
  shows "send env record s = (Inr (), s)" and "emit env record s = (Inr (), s)"
    and "sent env record s = []"
proof -
  from assms show a: "send env record s = (Inr (), s)" by (simp add: send_def)
  then show b: "emit env record s = (Inr (), s)" by (simp add: emit_def)
  then show "sent env record s = []" by (simp add: sent_def)
qed

lemma calls_emit: "calls (snd (emit env record s)) = calls s @ sent env record s"
proof -
  obtain ids cap ws where
    "snd (send env record s)
       = s\<lparr>logged_in := logged_in s \<or> ids \<noteq> [], calls := calls s @ ids @ cap,
           warned := warned s @ ws\<rparr>"
    using send_effect [of env "record" s] by blast
  moreover obtain hs where
    "snd (emit env record s) = (snd (send env record s))\<lparr>handled := handled s @ hs\<rparr>"
    using emit_snd [of env "record" s] by blast
  ultimately show ?thesis by (simp add: sent_def)
qed

lemma sent_capture:
  assumes "Capture a e p \<in> set (sent env record s)"
  shows "send_event env (cur_settings s) record = Inr (Some (e, p))"
    and "a = app_id (cur_settings s)"
proof -
  obtain ids cap ws where eff:
    "snd (send env record s)
       = s\<lparr>logged_in := logged_in s \<or> ids \<noteq> [], calls := calls s @ ids @ cap,
           warned := warned s @ ws\<rparr>"
    and ids: "\<forall>c \<in> set ids. identity_call c"
    and cap: "cap = [] \<or> (\<exists>event_name log_extra.
            send_event env (cur_settings s) record = Inr (Some (event_name, log_extra))
            \<and> cap = [Capture (app_id (cur_settings s)) event_name log_extra])"
    using send_effect [of env "record" s] by blast
  from eff have "sent env record s = ids @ cap" by (simp add: sent_send)
  with assms have "Capture a e p \<in> set ids \<or> Capture a e p \<in> set cap" by auto
  moreover have "Capture a e p \<notin> set ids"
  proof
    assume "Capture a e p \<in> set ids"
    with ids have "identity_call (Capture a e p)" by blast
    then show False by (simp add: identity_call_def)
  qed
  ultimately have "Capture a e p \<in> set cap" by simp
  with cap show "send_event env (cur_settings s) record = Inr (Some (e, p))"
    and "a = app_id (cur_settings s)" by auto
qed

subsection \<open>C2: only the four allowed events are forwarded\<close>

text \<open>
  Claim C2. A \<^verbatim>\<open>capture\<close> call is issued only if the derived event name is one of the
  four allowed events \<^verbatim>\<open>log_startup\<close>, \<^verbatim>\<open>log_cmd\<close>, \<^verbatim>\<open>log_error\<close>, \<^verbatim>\<open>log_warning\<close>; in
  particular, for a record whose filtered message matches no structured tag and whose
  level gives an event name outside that set, no \<^verbatim>\<open>capture\<close> call is issued. In the
  model: every \<^verbatim>\<open>capture\<close> among the calls one \<^verbatim>\<open>emit\<close> makes carries an allowed event
  name; these calls are what \<^verbatim>\<open>emit\<close> appends to the calls made so far; and on a record
  without a match and with a level outside the set, \<^verbatim>\<open>emit\<close> makes no call and changes
  nothing.
\<close>

theorem capture_only_allowed_events:
  "(\<forall>c \<in> set (sent env record s). \<forall>a e p. c = Capture a e p \<longrightarrow> e \<in> set AllowedEvents)
   \<and> calls (snd (emit env record s)) = calls s @ sent env record s
   \<and> (\<forall>msg line.
        getMessage record = Inr msg \<and> filter_log_line env msg = Inr line
        \<and> findall line = []
        \<and> ''log_'' @ lower (getLevelName env (levelno record)) \<notin> set AllowedEvents
        \<longrightarrow> sent env record s = [] \<and> emit env record s = (Inr (), s))"
proof (intro conjI ballI allI impI)
  fix c a e p
  assume "c \<in> set (sent env record s)" and "c = Capture a e p"
  then have "send_event env (cur_settings s) record = Inr (Some (e, p))"
    using sent_capture(1) [of a e p env "record" s] by simp
  then show "e \<in> set AllowedEvents" by (rule send_event_allowed)
next
  show "calls (snd (emit env record s)) = calls s @ sent env record s"
    by (rule calls_emit)
next
  fix msg line
  assume h: "getMessage record = Inr msg \<and> filter_log_line env msg = Inr line
        \<and> findall line = []
        \<and> ''log_'' @ lower (getLevelName env (levelno record)) \<notin> set AllowedEvents"
  then have ev: "send_event env (cur_settings s) record = Inr None"
    using send_event_plain [of "record" msg env line "cur_settings s"] by simp
  from send_not_accepted(3) [OF ev] show "sent env record s = []" .
next
  fix msg line
  assume h: "getMessage record = Inr msg \<and> filter_log_line env msg = Inr line
        \<and> findall line = []
        \<and> ''log_'' @ lower (getLevelName env (levelno record)) \<notin> set AllowedEvents"
  then have ev: "send_event env (cur_settings s) record = Inr None"
    using send_event_plain [of "record" msg env line "cur_settings s"] by simp
  from send_not_accepted(2) [OF ev] show "emit env record s = (Inr (), s)" .
qed

text \<open>An \<^verbatim>\<open>INFO\<close> record without a tag gives \<^verbatim>\<open>log_info\<close>, which is not forwarded.\<close>

theorem capture_only_allowed_events_witness:
  "getMessage (info_record ''the market is open'') = Inr ''the market is open''
   \<and> filter_log_line quiet_env ''the market is open'' = Inr ''the market is open''
   \<and> findall ''the market is open'' = []
   \<and> ''log_'' @ lower (getLevelName quiet_env (levelno (info_record ''the market is open'')))
        = ''log_info''
   \<and> ''log_info'' \<notin> set AllowedEvents
   \<and> sent quiet_env (info_record ''the market is open'') (fresh known_user) = []
   \<and> emit quiet_env (info_record ''the market is open'') (fresh known_user)
        = (Inr (), fresh known_user)"
proof -
  have a: "getMessage (info_record ''the market is open'') = Inr ''the market is open''"
    by (simp add: info_record_def)
  have b: "filter_log_line quiet_env ''the market is open'' = Inr ''the market is open''"
    by (simp add: quiet_env_def)
  have c: "findall ''the market is open'' = []"
    by code_simp
  have d: "''log_'' @ lower (getLevelName quiet_env (levelno (info_record ''the market is open'')))
        = ''log_info''"
    by code_simp
  have e: "''log_info'' \<notin> set AllowedEvents"
    by (simp add: AllowedEvents_def)
  from a b c d e
    capture_only_allowed_events
      [of quiet_env "info_record ''the market is open''" "fresh known_user"]
  show ?thesis by simp
qed

subsection \<open>C7: the noise markers\<close>

text \<open>
  Claim C7. A record with no structured tag whose filtered log line begins with
  \<^verbatim>\<open>QUEUE\<close>, \<^verbatim>\<open>START\<close>, \<^verbatim>\<open>END\<close> or \<^verbatim>\<open>INPUT:\<close> is discarded: \<^verbatim>\<open>send\<close> returns without
  issuing any \<^verbatim>\<open>capture\<close> call. In the model: \<^verbatim>\<open>send\<close> returns normally and leaves the
  state as it was, so no call of any kind is made, whatever the level of the record.
\<close>

theorem noise_is_discarded:
  assumes "getMessage record = Inr msg" and "filter_log_line env msg = Inr line"
    and "findall line = []"
    and "startswith line ''QUEUE'' \<or> startswith line ''START''
         \<or> startswith line ''END'' \<or> startswith line ''INPUT:''"
  shows "send env record s = (Inr (), s) \<and> sent env record s = []
         \<and> emit env record s = (Inr (), s)"
proof -
  from assms(4) have "noise line" by (simp add: noise_def)
  with assms(1-3) have ev: "send_event env (cur_settings s) record = Inr None"
    using send_event_plain [of "record" msg env line "cur_settings s"] by simp
  from send_not_accepted [OF ev] show ?thesis by simp
qed

text \<open>The record of the specification: an error record \<^verbatim>\<open>QUEUE something happened\<close>.\<close>

theorem noise_is_discarded_witness:
  "send quiet_env (error_record ''QUEUE something happened'') (fresh known_user)
     = (Inr (), fresh known_user)
   \<and> sent quiet_env (error_record ''QUEUE something happened'') (fresh known_user) = []
   \<and> emit quiet_env (error_record ''QUEUE something happened'') (fresh known_user)
     = (Inr (), fresh known_user)"
proof -
  have a: "getMessage (error_record ''QUEUE something happened'')
             = Inr ''QUEUE something happened''"
    by (simp add: error_record_def)
  have b: "filter_log_line quiet_env ''QUEUE something happened''
             = Inr ''QUEUE something happened''"
    by (simp add: quiet_env_def)
  have c: "findall ''QUEUE something happened'' = []"
    by code_simp
  have d: "startswith ''QUEUE something happened'' ''QUEUE''
           \<or> startswith ''QUEUE something happened'' ''START''
           \<or> startswith ''QUEUE something happened'' ''END''
           \<or> startswith ''QUEUE something happened'' ''INPUT:''"
    by (simp add: startswith_def)
  from noise_is_discarded [OF a b c d] show ?thesis .
qed

subsection \<open>Records with a structured tag\<close>

lemma log_to_dict_first:
  assumes "log_to_dict env line = Inr d" and "d \<noteq> []"
  shows "findall line \<noteq> []" and "hd (dict_keys d) = fst (hd (findall line))"
    and "hd (dict_keys d) \<in> {''STARTUP'', ''CMD'', ''ERROR''}"
proof -
  from assms show ne: "findall line \<noteq> []"
    using loop_empty [of "json_loads env" "findall line" "[]" d]
    by (simp add: log_to_dict_def)
  with assms(1) show hd: "hd (dict_keys d) = fst (hd (findall line))"
    using loop_first [of "json_loads env" "findall line" d]
    by (simp add: log_to_dict_def)
  from ne have "hd (findall line) \<in> set (findall line)" by simp
  then have "fst (hd (findall line)) \<in> {''STARTUP'', ''CMD'', ''ERROR''}"
    using findall_tags [of "fst (hd (findall line))" "snd (hd (findall line))" line]
    by simp
  with hd show "hd (dict_keys d) \<in> {''STARTUP'', ''CMD'', ''ERROR''}" by simp
qed

lemma tag_event_allowed:
  "tag \<in> {''STARTUP'', ''CMD'', ''ERROR''} \<Longrightarrow> ''log_'' @ lower tag \<in> set AllowedEvents"
  by (auto simp: AllowedEvents_def lower_def lower_char_def)

lemma message_popped: "''message'' \<notin> set (dict_keys (dict_pop ''message'' d))"
  by (simp add: keys_dict_pop)

lemma send_event_structured:
  assumes "getMessage record = Inr msg" and "filter_log_line env msg = Inr line"
    and "log_to_dict env line = Inr d" and "d \<noteq> []"
  shows "send_event env st record =
     (case (case map_of d ''STARTUP'' of Some v \<Rightarrow> v | None \<Rightarrow> PDict d) of
        PDict bag \<Rightarrow>
          (if noise line \<and> bag = [] then Inr None
           else Inr (Some (''log_'' @ lower (hd (dict_keys d)),
                  dict_pop ''message''
                    (dict_merge
                       (dict_merge (extract_log_extra st record)
                          [(''level'', PStr (getLevelName env (levelno record))),
                           (''message'', PStr line)])
                       bag))))
      | _ \<Rightarrow> Inl TypeError)"
proof -
  from assms(3,4) have "''log_'' @ lower (hd (dict_keys d)) \<in> set AllowedEvents"
    using log_to_dict_first(3) [of env line d] tag_event_allowed by blast
  with assms show ?thesis
    by (simp add: send_event_def structured_def Let_def split: pyval.splits option.splits)
qed


subsection \<open>C5: the event of a record with structured tags\<close>

text \<open>
  Claim C5. For every record whose mapping from tags to payloads is not empty, the event
  name is \<^verbatim>\<open>log_\<close> followed by the first tag found, in lower case; if the mapping has an
  entry \<^verbatim>\<open>STARTUP\<close>, its decoded payload replaces the mapping as the property bag,
  otherwise the whole mapping is the property bag; and the key \<^verbatim>\<open>message\<close> is removed
  from the merged properties. In the model, for a record whose filtered line \<open>line\<close> gives
  the mapping \<open>d\<close>: the first key of \<open>d\<close> is the tag of the first match; the outcome of
  lines 66 to 84 of \<^verbatim>\<open>send\<close> is the event named after that tag with the properties
  obtained by merging the bag into the enriched properties and removing \<^verbatim>\<open>message\<close>
  (\<^verbatim>\<open>TypeError\<close> when the bag is not a mapping, the early return when the bag is empty
  and the line starts with a noise marker); and every \<^verbatim>\<open>capture\<close> call of \<^verbatim>\<open>emit\<close> carries
  that event name and those properties, without a key \<^verbatim>\<open>message\<close>.
\<close>

theorem structured_event:
  assumes "getMessage record = Inr msg" and "filter_log_line env msg = Inr line"
    and "log_to_dict env line = Inr d" and "d \<noteq> []"
  shows "hd (dict_keys d) = fst (hd (findall line))
    \<and> send_event env (cur_settings s) record =
        (case (case map_of d ''STARTUP'' of Some v \<Rightarrow> v | None \<Rightarrow> PDict d) of
           PDict bag \<Rightarrow>
             (if noise line \<and> bag = [] then Inr None
              else Inr (Some (''log_'' @ lower (hd (dict_keys d)),
                     dict_pop ''message''
                       (dict_merge
                          (dict_merge (extract_log_extra (cur_settings s) record)
                             [(''level'', PStr (getLevelName env (levelno record))),
                              (''message'', PStr line)])
                          bag))))
         | _ \<Rightarrow> Inl TypeError)
    \<and> (\<forall>a e p. Capture a e p \<in> set (sent env record s) \<longrightarrow>
          e = ''log_'' @ lower (fst (hd (findall line)))
          \<and> (\<exists>bag. (case map_of d ''STARTUP'' of Some v \<Rightarrow> v | None \<Rightarrow> PDict d) = PDict bag
                \<and> p = dict_pop ''message''
                      (dict_merge
                         (dict_merge (extract_log_extra (cur_settings s) record)
                            [(''level'', PStr (getLevelName env (levelno record))),
                             (''message'', PStr line)])
                         bag))
          \<and> ''message'' \<notin> set (dict_keys p))"
proof (intro conjI allI impI)
  show first: "hd (dict_keys d) = fst (hd (findall line))"
    using assms(3,4) by (rule log_to_dict_first(2))
  show ev: "send_event env (cur_settings s) record =
        (case (case map_of d ''STARTUP'' of Some v \<Rightarrow> v | None \<Rightarrow> PDict d) of
           PDict bag \<Rightarrow>
             (if noise line \<and> bag = [] then Inr None
              else Inr (Some (''log_'' @ lower (hd (dict_keys d)),
                     dict_pop ''message''
                       (dict_merge
                          (dict_merge (extract_log_extra (cur_settings s) record)
                             [(''level'', PStr (getLevelName env (levelno record))),
                              (''message'', PStr line)])
                          bag))))
         | _ \<Rightarrow> Inl TypeError)"
    using assms by (rule send_event_structured)
  fix a e p
  assume "Capture a e p \<in> set (sent env record s)"
  then have sent: "send_event env (cur_settings s) record = Inr (Some (e, p))"
    by (rule sent_capture(1))
  with ev obtain bag where
    bag: "(case map_of d ''STARTUP'' of Some v \<Rightarrow> v | None \<Rightarrow> PDict d) = PDict bag"
    and e: "e = ''log_'' @ lower (hd (dict_keys d))"
    and p: "p = dict_pop ''message''
                  (dict_merge
                     (dict_merge (extract_log_extra (cur_settings s) record)
                        [(''level'', PStr (getLevelName env (levelno record))),
                         (''message'', PStr line)])
                     bag)"
    by (auto split: pyval.splits if_splits)
  from e first show "e = ''log_'' @ lower (fst (hd (findall line)))" by simp
  from bag p show "\<exists>bag. (case map_of d ''STARTUP'' of Some v \<Rightarrow> v | None \<Rightarrow> PDict d) = PDict bag
                \<and> p = dict_pop ''message''
                      (dict_merge
                         (dict_merge (extract_log_extra (cur_settings s) record)
                            [(''level'', PStr (getLevelName env (levelno record))),
                             (''message'', PStr line)])
                         bag)"
    by blast
  from p show "''message'' \<notin> set (dict_keys p)" by (simp add: message_popped)
qed

text \<open>
  An \<^verbatim>\<open>INFO\<close> record of two lines, \<^verbatim>\<open>ERROR: {"code": 7}\<close> and
  \<^verbatim>\<open>STARTUP: {"message": "up", "a": 1}\<close>: the event is named after the first tag, the bag
  is the payload of \<^verbatim>\<open>STARTUP\<close>, and no \<^verbatim>\<open>message\<close> is left.
\<close>

theorem structured_event_witness:
  "getMessage (info_record error_then_startup) = Inr error_then_startup
   \<and> filter_log_line quiet_env error_then_startup = Inr error_then_startup
   \<and> log_to_dict quiet_env error_then_startup
       = Inr [(''ERROR'', PDict [(''code'', PInt 7)]),
              (''STARTUP'', PDict [(''message'', PStr ''up''), (''a'', PInt 1)])]
   \<and> fst (hd (findall error_then_startup)) = ''ERROR''
   \<and> send_event quiet_env (cur_settings (fresh known_user)) (info_record error_then_startup)
       = Inr (Some (''log_error'',
           [(''appName'', PStr ''platform''), (''subAppName'', PStr ''sdk''),
            (''appId'', PStr ''app-1''), (''sessionId'', PStr ''session-1''),
            (''platform'', PStr ''Linux''), (''pythonVersion'', PStr ''3.11''),
            (''obbPlatformVersion'', PStr ''4.0''), (''userId'', PStr ''user-1''),
            (''level'', PStr ''INFO''), (''a'', PInt 1)]))"
proof -
  have a: "getMessage (info_record error_then_startup) = Inr error_then_startup"
    by (simp add: info_record_def)
  have b: "filter_log_line quiet_env error_then_startup = Inr error_then_startup"
    by (simp add: quiet_env_def)
  have c: "log_to_dict quiet_env error_then_startup
       = Inr [(''ERROR'', PDict [(''code'', PInt 7)]),
              (''STARTUP'', PDict [(''message'', PStr ''up''), (''a'', PInt 1)])]"
    by code_simp
  have d: "[(''ERROR'', PDict [(''code'', PInt 7)]),
            (''STARTUP'', PDict [(''message'', PStr ''up''), (''a'', PInt 1)])] \<noteq> []"
    by simp
  have e: "extract_log_extra known_user (info_record error_then_startup)
       = [(''appName'', PStr ''platform''), (''subAppName'', PStr ''sdk''),
          (''appId'', PStr ''app-1''), (''sessionId'', PStr ''session-1''),
          (''platform'', PStr ''Linux''), (''pythonVersion'', PStr ''3.11''),
          (''obbPlatformVersion'', PStr ''4.0''), (''userId'', PStr ''user-1'')]"
    by code_simp
  have f: "getLevelName quiet_env (levelno (info_record error_then_startup)) = ''INFO''"
    by code_simp
  have g: "\<not> noise error_then_startup"
    by code_simp
  from structured_event [OF a b c d, of "fresh known_user"] a b c e f g
  show ?thesis
    by (simp add: cur_settings_fresh dict_keys_def lower_def lower_char_def
          dict_merge_def dict_pop_def)
qed

subsection \<open>Evaluating \<open>emit\<close> on a new handler\<close>

lemma emit_quiet_anonymous:
  assumes "send_event quiet_env anonymous r = Inr (Some (e, p))"
  shows "sent quiet_env r (fresh anonymous) = [Capture ''app-1'' e p]"
proof -
  have no_user: "user_id (cur_settings (fresh anonymous)) = None"
    by (simp add: cur_settings_fresh anonymous_def)
  have app: "app_id (cur_settings (fresh anonymous)) = ''app-1''"
    by (simp add: cur_settings_fresh anonymous_def)
  have ident: "send_identify quiet_env (fresh anonymous) = (Inr (), fresh anonymous)"
    using no_user by (simp add: send_identify_def)
  have answer: "posthog quiet_env h c = Inr PNone" for h c
    by (simp add: quiet_env_def)
  have quiet: "\<not> debug_mode quiet_env"
    by (simp add: quiet_env_def)
  have "send_capture quiet_env e p (fresh anonymous)
      = (Inr (), (fresh anonymous)\<lparr>calls := calls (fresh anonymous) @ [Capture ''app-1'' e p]\<rparr>)"
    by (simp add: send_capture_def call_posthog_def answer quiet app)
  with assms ident have "send quiet_env r (fresh anonymous)
      = (Inr (), (fresh anonymous)\<lparr>calls := calls (fresh anonymous) @ [Capture ''app-1'' e p]\<rparr>)"
    by (simp add: send_def cur_settings_fresh)
  then show ?thesis
    by (simp add: sent_def emit_def)
qed

subsection \<open>C4: the record \<open>STARTUP: {"a": 1}\<close>\<close>

lemma startup_line_dict:
  assumes "json_loads env ''{\"a\": 1}'' = Inr (PDict [(''a'', PInt 1)])"
  shows "log_to_dict env startup_line = Inr [(''STARTUP'', PDict [(''a'', PInt 1)])]"
proof -
  have "findall startup_line = [(''STARTUP'', ''{\"a\": 1}'')]"
    by code_simp
  with assms show ?thesis by (simp add: log_to_dict_def)
qed

text \<open>
  Claim C4, as amended. For a record whose filtered message is \<^verbatim>\<open>STARTUP: {"a": 1}\<close>, the
  event name of the \<^verbatim>\<open>capture\<close> call is \<^verbatim>\<open>log_startup\<close>, its property bag maps \<^verbatim>\<open>a\<close> to 1
  and has no key \<^verbatim>\<open>message\<close>; the key \<^verbatim>\<open>level\<close> stays in the bag, with the name of the
  record's level (only \<^verbatim>\<open>message\<close> is popped). The decoder is assumed to decode
  \<^verbatim>\<open>{"a": 1}\<close> as Python does.
\<close>

theorem startup_example:
  assumes "getMessage record = Inr msg" and "filter_log_line env msg = Inr startup_line"
    and "json_loads env ''{\"a\": 1}'' = Inr (PDict [(''a'', PInt 1)])"
  shows "(\<exists>p. send_event env (cur_settings s) record = Inr (Some (''log_startup'', p)))
    \<and> (\<forall>a e p. Capture a e p \<in> set (sent env record s) \<longrightarrow>
          e = ''log_startup''
          \<and> map_of p ''a'' = Some (PInt 1)
          \<and> ''message'' \<notin> set (dict_keys p)
          \<and> map_of p ''level'' = Some (PStr (getLevelName env (levelno record))))"
proof -
  let ?d = "[(''STARTUP'', PDict [(''a'', PInt 1)])]"
  let ?p = "dict_pop ''message''
              (dict_merge
                 (dict_merge (extract_log_extra (cur_settings s) record)
                    [(''level'', PStr (getLevelName env (levelno record))),
                     (''message'', PStr startup_line)])
                 [(''a'', PInt 1)])"
  have d: "log_to_dict env startup_line = Inr ?d"
    using assms(3) by (rule startup_line_dict)
  have "send_event env (cur_settings s) record
        = Inr (Some (''log_'' @ lower (hd (dict_keys ?d)), ?p))"
    using send_event_structured [OF assms(1,2) d, of "cur_settings s"] by simp
  then have ev: "send_event env (cur_settings s) record = Inr (Some (''log_startup'', ?p))"
    by (simp add: dict_keys_def lower_def lower_char_def)
  have pa: "map_of ?p ''a'' = Some (PInt 1)"
    by (simp add: map_of_dict_pop map_of_dict_merge)
  have pl: "map_of ?p ''level'' = Some (PStr (getLevelName env (levelno record)))"
    by (simp add: map_of_dict_pop map_of_dict_merge)
  have pm: "''message'' \<notin> set (dict_keys ?p)"
    by (rule message_popped)
  show ?thesis
  proof (intro conjI allI impI)
    from ev show "\<exists>p. send_event env (cur_settings s) record = Inr (Some (''log_startup'', p))"
      by blast
  next
    fix a e p
    assume "Capture a e p \<in> set (sent env record s)"
    then have "send_event env (cur_settings s) record = Inr (Some (e, p))"
      by (rule sent_capture(1))
    with ev have e: "e = ''log_startup''" and p: "p = ?p" by simp_all
    from e show "e = ''log_startup''" .
    from p pa show "map_of p ''a'' = Some (PInt 1)" by simp
    from p pm show "''message'' \<notin> set (dict_keys p)" by simp
    from p pl show "map_of p ''level'' = Some (PStr (getLevelName env (levelno record)))"
      by simp
  qed
qed

text \<open>
  The amended claim on a new handler with the quiet collaborators: the one call made is
  the \<^verbatim>\<open>capture\<close> of \<^verbatim>\<open>log_startup\<close>, and the theorem gives its properties.
\<close>

theorem startup_example_witness:
  "getMessage (info_record startup_line) = Inr startup_line
   \<and> filter_log_line quiet_env startup_line = Inr startup_line
   \<and> json_loads quiet_env ''{\"a\": 1}'' = Inr (PDict [(''a'', PInt 1)])
   \<and> (\<exists>p. sent quiet_env (info_record startup_line) (fresh anonymous)
             = [Capture ''app-1'' ''log_startup'' p]
          \<and> map_of p ''a'' = Some (PInt 1)
          \<and> ''message'' \<notin> set (dict_keys p)
          \<and> map_of p ''level'' = Some (PStr ''INFO''))"
proof -
  have a: "getMessage (info_record startup_line) = Inr startup_line"
    by (simp add: info_record_def)
  have b: "filter_log_line quiet_env startup_line = Inr startup_line"
    by (simp add: quiet_env_def)
  have c: "json_loads quiet_env ''{\"a\": 1}'' = Inr (PDict [(''a'', PInt 1)])"
    by code_simp
  have lvl: "getLevelName quiet_env (levelno (info_record startup_line)) = ''INFO''"
    by code_simp
  note inst = startup_example [OF a b c, of "fresh anonymous"]
  from inst obtain p where
    "send_event quiet_env anonymous (info_record startup_line) = Inr (Some (''log_startup'', p))"
    by (auto simp: cur_settings_fresh)
  then have sent: "sent quiet_env (info_record startup_line) (fresh anonymous)
      = [Capture ''app-1'' ''log_startup'' p]"
    by (rule emit_quiet_anonymous)
  then have "Capture ''app-1'' ''log_startup'' p
      \<in> set (sent quiet_env (info_record startup_line) (fresh anonymous))"
    by simp
  with inst lvl have "map_of p ''a'' = Some (PInt 1) \<and> ''message'' \<notin> set (dict_keys p)
      \<and> map_of p ''level'' = Some (PStr ''INFO'')"
    by simp
  with a b c sent show ?thesis by blast
qed

text \<open>
  Claim C4 as it was stated fails on the key \<^verbatim>\<open>level\<close>: the bag of the \<^verbatim>\<open>capture\<close> call
  for the \<^verbatim>\<open>INFO\<close> record \<^verbatim>\<open>STARTUP: {"a": 1}\<close> holds \<^verbatim>\<open>level\<close>.
\<close>

theorem startup_example_keeps_level:
  "sent quiet_env (info_record startup_line) (fresh anonymous)
     = [Capture ''app-1'' ''log_startup''
          [(''appName'', PStr ''platform''), (''subAppName'', PStr ''sdk''),
           (''appId'', PStr ''app-1''), (''sessionId'', PStr ''session-1''),
           (''platform'', PStr ''Linux''), (''pythonVersion'', PStr ''3.11''),
           (''obbPlatformVersion'', PStr ''4.0''), (''level'', PStr ''INFO''),
           (''a'', PInt 1)]]
   \<and> ''level'' \<in> set (dict_keys
          [(''appName'', PStr ''platform''), (''subAppName'', PStr ''sdk''),
           (''appId'', PStr ''app-1''), (''sessionId'', PStr ''session-1''),
           (''platform'', PStr ''Linux''), (''pythonVersion'', PStr ''3.11''),
           (''obbPlatformVersion'', PStr ''4.0''), (''level'', PStr ''INFO''),
           (''a'', PInt 1)])"
proof -
  have "send_event quiet_env anonymous (info_record startup_line)
     = Inr (Some (''log_startup'',
          [(''appName'', PStr ''platform''), (''subAppName'', PStr ''sdk''),
           (''appId'', PStr ''app-1''), (''sessionId'', PStr ''session-1''),
           (''platform'', PStr ''Linux''), (''pythonVersion'', PStr ''3.11''),
           (''obbPlatformVersion'', PStr ''4.0''), (''level'', PStr ''INFO''),
           (''a'', PInt 1)]))"
    by code_simp
  then show ?thesis
    by (simp add: emit_quiet_anonymous dict_keys_def)
qed


subsection \<open>C6: the record \<open>CMD: {"cmd": "price"}\<close>\<close>

lemma cmd_line_dict:
  assumes "json_loads env ''{\"cmd\": \"price\"}'' = Inr (PDict [(''cmd'', PStr ''price'')])"
  shows "log_to_dict env cmd_line = Inr [(''CMD'', PDict [(''cmd'', PStr ''price'')])]"
proof -
  have "findall cmd_line = [(''CMD'', ''{\"cmd\": \"price\"}'')]"
    by code_simp
  with assms show ?thesis by (simp add: log_to_dict_def)
qed

lemma seeded_keys:
  "dict_keys (seeded st) =
     [''appName'', ''subAppName'', ''appId'', ''sessionId'', ''platform'',
      ''pythonVersion'', ''obbPlatformVersion'']"
  by (simp add: seeded_def dict_keys_def)

lemma keys_extract_log_extra:
  "set (dict_keys (seeded st)) \<subseteq> set (dict_keys (extract_log_extra st record))"
  by (auto simp: extract_log_extra_def Let_def keys_dict_set keys_dict_merge
           split: option.splits)

lemma map_of_extract_log_extra:
  assumes "k \<noteq> ''userId''" and "k \<noteq> ''exception''"
  shows "map_of (extract_log_extra st record) k =
           (case extra record of
              None \<Rightarrow> map_of (seeded st) k
            | Some x \<Rightarrow> (map_of (seeded st) ++ map_of (rev x)) k)"
  using assms
  by (auto simp: extract_log_extra_def Let_def map_of_dict_set map_of_dict_merge map_add_def
           split: option.splits)

text \<open>
  Claim C6, as amended. For a record whose filtered message is
  \<^verbatim>\<open>CMD: {"cmd": "price"}\<close>, the event name of the \<^verbatim>\<open>capture\<close> call is \<^verbatim>\<open>log_cmd\<close> and its
  property bag has the seven seeded context keys (with the values of the settings when
  the record has no \<^verbatim>\<open>extra\<close>) and the key \<^verbatim>\<open>CMD\<close>, whose value is the decoded payload,
  the mapping of \<^verbatim>\<open>cmd\<close> to \<^verbatim>\<open>price\<close>. The payload is not spread into the bag: a key
  \<^verbatim>\<open>cmd\<close> is in the bag only if the record's \<^verbatim>\<open>extra\<close> has one. The decoder is assumed to
  decode \<^verbatim>\<open>{"cmd": "price"}\<close> as Python does.
\<close>

theorem cmd_example:
  assumes "getMessage record = Inr msg" and "filter_log_line env msg = Inr cmd_line"
    and "json_loads env ''{\"cmd\": \"price\"}'' = Inr (PDict [(''cmd'', PStr ''price'')])"
  shows "(\<exists>p. send_event env (cur_settings s) record = Inr (Some (''log_cmd'', p)))
    \<and> (\<forall>a e p. Capture a e p \<in> set (sent env record s) \<longrightarrow>
          e = ''log_cmd''
          \<and> map_of p ''CMD'' = Some (PDict [(''cmd'', PStr ''price'')])
          \<and> set (dict_keys (seeded (cur_settings s))) \<subseteq> set (dict_keys p)
          \<and> (extra record = None \<longrightarrow>
                (\<forall>k v. (k, v) \<in> set (seeded (cur_settings s)) \<longrightarrow> map_of p k = Some v))
          \<and> map_of p ''cmd''
              = (case extra record of None \<Rightarrow> None | Some x \<Rightarrow> map_of (rev x) ''cmd''))"
proof -
  let ?d = "[(''CMD'', PDict [(''cmd'', PStr ''price'')])]"
  let ?st = "cur_settings s"
  let ?base = "dict_merge (extract_log_extra ?st record)
                 [(''level'', PStr (getLevelName env (levelno record))),
                  (''message'', PStr cmd_line)]"
  let ?p = "dict_pop ''message'' (dict_merge ?base ?d)"
  have d: "log_to_dict env cmd_line = Inr ?d"
    using assms(3) by (rule cmd_line_dict)
  have "\<not> noise cmd_line"
    by code_simp
  then have "send_event env ?st record = Inr (Some (''log_'' @ lower (hd (dict_keys ?d)), ?p))"
    using send_event_structured [OF assms(1,2) d, of ?st] by simp
  then have ev: "send_event env ?st record = Inr (Some (''log_cmd'', ?p))"
    by (simp add: dict_keys_def lower_def lower_char_def)
  have pc: "map_of ?p ''CMD'' = Some (PDict [(''cmd'', PStr ''price'')])"
    by (simp add: map_of_dict_pop map_of_dict_merge)
  have keys: "set (dict_keys (seeded ?st)) \<subseteq> set (dict_keys ?p)"
  proof -
    have "''message'' \<notin> set (dict_keys (seeded ?st))"
      by (simp add: seeded_keys)
    with keys_extract_log_extra [of ?st "record"] show ?thesis
      by (auto simp: keys_dict_pop keys_dict_merge)
  qed
  have other: "map_of ?p k = map_of (extract_log_extra ?st record) k"
    if "k \<notin> {''level'', ''message'', ''CMD''}" for k
    using that by (simp add: map_of_dict_pop map_of_dict_merge map_add_def)
  have vals: "map_of ?p k = Some v"
    if "extra record = None" and "(k, v) \<in> set (seeded ?st)" for k v
  proof -
    from that(2) have k: "k \<in> set (dict_keys (seeded ?st))"
      by (force simp: dict_keys_def)
    then have "k \<notin> {''level'', ''message'', ''CMD''}" "k \<noteq> ''userId''" "k \<noteq> ''exception''"
      by (auto simp: seeded_keys)
    then have "map_of ?p k = map_of (seeded ?st) k"
      using other [of k] map_of_extract_log_extra [of k ?st "record"] that(1) by simp
    moreover have "distinct (map fst (seeded ?st))"
      using seeded_keys [of ?st] by (simp add: dict_keys_def)
    ultimately show ?thesis using that(2) by simp
  qed
  have cmd: "map_of ?p ''cmd''
      = (case extra record of None \<Rightarrow> None | Some x \<Rightarrow> map_of (rev x) ''cmd'')"
  proof -
    have "map_of (seeded ?st) ''cmd'' = None"
      by (simp add: seeded_def)
    then show ?thesis
      using other [of "''cmd''"] map_of_extract_log_extra [of "''cmd''" ?st "record"]
      by (simp add: map_add_def split: option.splits)
  qed
  show ?thesis
  proof (intro conjI allI impI)
    from ev show "\<exists>p. send_event env ?st record = Inr (Some (''log_cmd'', p))"
      by blast
  next
    fix a e p
    assume "Capture a e p \<in> set (sent env record s)"
    then have "send_event env ?st record = Inr (Some (e, p))"
      by (rule sent_capture(1))
    with ev have e: "e = ''log_cmd''" and p: "p = ?p" by simp_all
    from e show "e = ''log_cmd''" .
    from p pc show "map_of p ''CMD'' = Some (PDict [(''cmd'', PStr ''price'')])" by simp
    from p keys show "set (dict_keys (seeded ?st)) \<subseteq> set (dict_keys p)" by simp
    from p cmd show "map_of p ''cmd''
        = (case extra record of None \<Rightarrow> None | Some x \<Rightarrow> map_of (rev x) ''cmd'')"
      by simp
    fix k v
    assume "extra record = None" and "(k, v) \<in> set (seeded ?st)"
    with p vals show "map_of p k = Some v" by simp
  qed
qed

text \<open>
  The amended claim on a new handler with the quiet collaborators: the one call made is
  the \<^verbatim>\<open>capture\<close> of \<^verbatim>\<open>log_cmd\<close>, with the payload under the key \<^verbatim>\<open>CMD\<close>.
\<close>

theorem cmd_example_witness:
  "getMessage (info_record cmd_line) = Inr cmd_line
   \<and> filter_log_line quiet_env cmd_line = Inr cmd_line
   \<and> json_loads quiet_env ''{\"cmd\": \"price\"}'' = Inr (PDict [(''cmd'', PStr ''price'')])
   \<and> (\<exists>p. sent quiet_env (info_record cmd_line) (fresh anonymous)
             = [Capture ''app-1'' ''log_cmd'' p]
          \<and> map_of p ''CMD'' = Some (PDict [(''cmd'', PStr ''price'')])
          \<and> map_of p ''appName'' = Some (PStr ''platform'')
          \<and> map_of p ''cmd'' = None)"
proof -
  have a: "getMessage (info_record cmd_line) = Inr cmd_line"
    by (simp add: info_record_def)
  have b: "filter_log_line quiet_env cmd_line = Inr cmd_line"
    by (simp add: quiet_env_def)
  have c: "json_loads quiet_env ''{\"cmd\": \"price\"}''
             = Inr (PDict [(''cmd'', PStr ''price'')])"
    by code_simp
  have x: "extra (info_record cmd_line) = None"
    by (simp add: info_record_def)
  have sd: "(''appName'', PStr ''platform'') \<in> set (seeded (cur_settings (fresh anonymous)))"
    by (simp add: cur_settings_fresh seeded_def anonymous_def)
  note inst = cmd_example [OF a b c, of "fresh anonymous"]
  from inst obtain p where
    "send_event quiet_env anonymous (info_record cmd_line) = Inr (Some (''log_cmd'', p))"
    by (auto simp: cur_settings_fresh)
  then have sent: "sent quiet_env (info_record cmd_line) (fresh anonymous)
      = [Capture ''app-1'' ''log_cmd'' p]"
    by (rule emit_quiet_anonymous)
  then have "Capture ''app-1'' ''log_cmd'' p
      \<in> set (sent quiet_env (info_record cmd_line) (fresh anonymous))"
    by simp
  with inst x sd have "map_of p ''CMD'' = Some (PDict [(''cmd'', PStr ''price'')])
      \<and> map_of p ''appName'' = Some (PStr ''platform'') \<and> map_of p ''cmd'' = None"
    by simp
  with a b c sent show ?thesis by blast
qed

text \<open>
  Claim C6 as it was stated fails on the key \<^verbatim>\<open>cmd\<close>: the bag of the \<^verbatim>\<open>capture\<close> call for
  the record \<^verbatim>\<open>CMD: {"cmd": "price"}\<close> has no key \<^verbatim>\<open>cmd\<close>; \<^verbatim>\<open>price\<close> is inside the value of
  the key \<^verbatim>\<open>CMD\<close>.
\<close>

theorem cmd_example_nests_payload:
  "sent quiet_env (info_record cmd_line) (fresh anonymous)
     = [Capture ''app-1'' ''log_cmd''
          [(''appName'', PStr ''platform''), (''subAppName'', PStr ''sdk''),
           (''appId'', PStr ''app-1''), (''sessionId'', PStr ''session-1''),
           (''platform'', PStr ''Linux''), (''pythonVersion'', PStr ''3.11''),
           (''obbPlatformVersion'', PStr ''4.0''), (''level'', PStr ''INFO''),
           (''CMD'', PDict [(''cmd'', PStr ''price'')])]]
   \<and> map_of
          [(''appName'', PStr ''platform''), (''subAppName'', PStr ''sdk''),
           (''appId'', PStr ''app-1''), (''sessionId'', PStr ''session-1''),
           (''platform'', PStr ''Linux''), (''pythonVersion'', PStr ''3.11''),
           (''obbPlatformVersion'', PStr ''4.0''), (''level'', PStr ''INFO''),
           (''CMD'', PDict [(''cmd'', PStr ''price'')])] ''cmd'' = None"
proof -
  have "send_event quiet_env anonymous (info_record cmd_line)
     = Inr (Some (''log_cmd'',
          [(''appName'', PStr ''platform''), (''subAppName'', PStr ''sdk''),
           (''appId'', PStr ''app-1''), (''sessionId'', PStr ''session-1''),
           (''platform'', PStr ''Linux''), (''pythonVersion'', PStr ''3.11''),
           (''obbPlatformVersion'', PStr ''4.0''), (''level'', PStr ''INFO''),
           (''CMD'', PDict [(''cmd'', PStr ''price'')])]))"
    by code_simp
  then show ?thesis
    by (simp add: emit_quiet_anonymous)
qed

subsection \<open>C8: what \<open>log_to_dict\<close> collects\<close>

lemma findall_tagged_line:
  assumes "tag \<in> {''STARTUP'', ''CMD'', ''ERROR''}" and "newline \<notin> set rest"
  shows "findall (tag @ '': '' @ rest) = [(tag, rest)]"
proof -
  from assms(1) have "match_tag (tag @ '': '' @ rest) = Some (tag, rest)"
    by (auto simp: match_tag_def startswith_def)
  then have "findall (tag @ '': '' @ rest)
      = (tag, takeWhile (\<lambda>x. x \<noteq> newline) rest)
          # findall (dropWhile (\<lambda>x. x \<noteq> newline) rest)"
    by (rule findall_match)
  moreover from assms(2) have "takeWhile (\<lambda>x. x \<noteq> newline) rest = rest"
    by (auto simp: takeWhile_eq_all_conv)
  moreover from assms(2) have "dropWhile (\<lambda>x. x \<noteq> newline) rest = []"
    by (auto simp: dropWhile_eq_Nil_conv)
  ultimately show ?thesis by simp
qed

text \<open>
  Claim C8, as amended. The classifier collects the matches of the regular expression,
  from left to right and without overlap, and not every occurrence of a tag: the payload
  of a match is the whole rest of its line, so a text without a newline has at most one
  match, and a line that starts with a tag, a colon and a space is one match whose
  payload is all that follows, later tags included. Each payload is decoded as JSON. The
  call raises if and only if some payload does not decode; otherwise the keys of the
  mapping are the tags matched, and the value of a tag is the decoded payload of its
  last match.
\<close>

theorem log_to_dict_collects_matches:
  "(newline \<notin> set line \<longrightarrow> length (findall line) \<le> 1)
   \<and> (\<forall>tag rest. tag \<in> {''STARTUP'', ''CMD'', ''ERROR''} \<and> newline \<notin> set rest
         \<longrightarrow> findall (tag @ '': '' @ rest) = [(tag, rest)])
   \<and> (\<forall>m \<in> set (findall line).
         fst m \<in> {''STARTUP'', ''CMD'', ''ERROR''} \<and> newline \<notin> set (snd m))
   \<and> (isl (log_to_dict env line) \<longleftrightarrow> (\<exists>m \<in> set (findall line). isl (json_loads env (snd m))))
   \<and> (\<forall>d. log_to_dict env line = Inr d \<longrightarrow>
         distinct (dict_keys d)
         \<and> set (dict_keys d) = fst ` set (findall line)
         \<and> (\<forall>tag. rel_option (\<lambda>v r. r = Inr v) (map_of d tag)
                (map_option (json_loads env) (map_of (rev (findall line)) tag))))"
proof (intro conjI allI impI ballI)
  assume "newline \<notin> set line"
  then show "length (findall line) \<le> 1" by (rule findall_one_line)
next
  fix tag rest
  assume "tag \<in> {''STARTUP'', ''CMD'', ''ERROR''} \<and> newline \<notin> set rest"
  then show "findall (tag @ '': '' @ rest) = [(tag, rest)]"
    using findall_tagged_line [of tag rest] by blast
next
  fix m
  assume "m \<in> set (findall line)"
  then have m: "(fst m, snd m) \<in> set (findall line)" by simp
  from findall_tags [OF m] show "fst m \<in> {''STARTUP'', ''CMD'', ''ERROR''}" .
next
  fix m
  assume "m \<in> set (findall line)"
  then have m: "(fst m, snd m) \<in> set (findall line)" by simp
  from findall_payload_line [OF m] show "newline \<notin> set (snd m)" .
next
  show "isl (log_to_dict env line) \<longleftrightarrow> (\<exists>m \<in> set (findall line). isl (json_loads env (snd m)))"
    by (simp add: log_to_dict_def loop_raises)
next
  fix d
  assume "log_to_dict env line = Inr d"
  then have d: "log_to_dict_loop (json_loads env) (findall line) [] = Inr d"
    by (simp add: log_to_dict_def)
  from loop_distinct [OF d] show "distinct (dict_keys d)"
    by (simp add: dict_keys_def)
next
  fix d
  assume "log_to_dict env line = Inr d"
  then have d: "log_to_dict_loop (json_loads env) (findall line) [] = Inr d"
    by (simp add: log_to_dict_def)
  from loop_keys [OF d] show "set (dict_keys d) = fst ` set (findall line)"
    by (simp add: dict_keys_def)
next
  fix d tag
  assume "log_to_dict env line = Inr d"
  then have d: "log_to_dict_loop (json_loads env) (findall line) [] = Inr d"
    by (simp add: log_to_dict_def)
  from loop_values [OF d, of tag]
  show "rel_option (\<lambda>v r. r = Inr v) (map_of d tag)
          (map_option (json_loads env) (map_of (rev (findall line)) tag))"
    by (cases "map_of (rev (findall line)) tag") simp_all
qed

text \<open>
  Two lines with the tag \<^verbatim>\<open>CMD\<close>: two matches, one key, the value of the last match.
\<close>

theorem log_to_dict_collects_matches_witness:
  "findall cmd_twice = [(''CMD'', ''1''), (''CMD'', ''2'')]
   \<and> log_to_dict quiet_env cmd_twice = Inr [(''CMD'', PInt 2)]
   \<and> map_option (json_loads quiet_env) (map_of (rev (findall cmd_twice)) ''CMD'')
       = Some (Inr (PInt 2))
   \<and> newline \<notin> set cmd_and_error
   \<and> length (findall cmd_and_error) \<le> 1"
proof -
  have a: "findall cmd_twice = [(''CMD'', ''1''), (''CMD'', ''2'')]"
    by code_simp
  have b: "log_to_dict quiet_env cmd_twice = Inr [(''CMD'', PInt 2)]"
    by code_simp
  have c: "newline \<notin> set cmd_and_error"
    by code_simp
  from log_to_dict_collects_matches [of cmd_twice quiet_env] b
  have "rel_option (\<lambda>v r. r = Inr v) (map_of [(''CMD'', PInt 2)] ''CMD'')
          (map_option (json_loads quiet_env) (map_of (rev (findall cmd_twice)) ''CMD''))"
    by blast
  then have d: "map_option (json_loads quiet_env) (map_of (rev (findall cmd_twice)) ''CMD'')
       = Some (Inr (PInt 2))"
    by (cases "map_option (json_loads quiet_env) (map_of (rev (findall cmd_twice)) ''CMD'')")
       simp_all
  from log_to_dict_collects_matches [of cmd_and_error quiet_env] c
  have e: "length (findall cmd_and_error) \<le> 1"
    by blast
  from a b c d e show ?thesis by simp
qed

text \<open>
  Claim C8 as it was stated fails. The line \<^verbatim>\<open>CMD: 1 ERROR: 2\<close> holds two occurrences of a
  tag with a JSON payload, \<^verbatim>\<open>1\<close> and \<^verbatim>\<open>2\<close>; the expression matches once, with the payload
  \<^verbatim>\<open>1 ERROR: 2\<close>, which is not JSON, and \<^verbatim>\<open>log_to_dict\<close> raises instead of returning a
  mapping. On two lines \<^verbatim>\<open>CMD: 1\<close> and \<^verbatim>\<open>CMD: 2\<close> the mapping keeps one of the two
  payloads.
\<close>

theorem log_to_dict_misses_second_tag:
  "json_decode ''1'' = Inr (PInt 1)
   \<and> json_decode ''2'' = Inr (PInt 2)
   \<and> findall cmd_and_error = [(''CMD'', ''1 ERROR: 2'')]
   \<and> log_to_dict quiet_env cmd_and_error = Inl JSONDecodeError
   \<and> log_to_dict quiet_env cmd_twice = Inr [(''CMD'', PInt 2)]"
proof -
  have "json_decode ''1'' = Inr (PInt 1)" by code_simp
  moreover have "json_decode ''2'' = Inr (PInt 2)" by code_simp
  moreover have "findall cmd_and_error = [(''CMD'', ''1 ERROR: 2'')]" by code_simp
  moreover have "log_to_dict quiet_env cmd_and_error = Inl JSONDecodeError" by code_simp
  moreover have "log_to_dict quiet_env cmd_twice = Inr [(''CMD'', PInt 2)]" by code_simp
  ultimately show ?thesis by simp
qed

subsection \<open>C9: the property \<open>settings\<close>\<close>




subsection \<open>The identity sequence over the life of a handler\<close>

lemma emit_not_accepted:
  assumes "\<not> accepted env (cur_settings s) r"
  shows "\<exists>hs. snd (emit env r s) = s\<lparr>handled := handled s @ hs\<rparr>"
proof (cases "send_event env (cur_settings s) r")
  case (Inl e)
  then have "emit env r s = (Inr (), s\<lparr>handled := handled s @ [(r, e)]\<rparr>)"
    by (simp add: emit_def send_def handleError_def)
  then show ?thesis by (intro exI [of _ "[(r, e)]"]) simp
next
  case (Inr x)
  with assms have "x = None" by (cases x) (auto simp: accepted_def)
  with Inr have "emit env r s = (Inr (), s)" by (simp add: emit_def send_def)
  then show ?thesis by (intro exI [of _ "[]"]) simp
qed

lemma run_not_accepted:
  assumes "\<forall>r \<in> set pre. \<not> accepted env (cur_settings s) r"
  shows "\<exists>hs. run env (map Emit pre) s = s\<lparr>handled := handled s @ hs\<rparr>"
  using assms
proof (induction pre arbitrary: s)
  case Nil
  show ?case by (intro exI [of _ "[]"]) simp
next
  case (Cons r pre)
  then have "\<not> accepted env (cur_settings s) r" by simp
  then obtain hs where hs: "snd (emit env r s) = s\<lparr>handled := handled s @ hs\<rparr>"
    using emit_not_accepted by blast
  from Cons.prems have "\<forall>r \<in> set pre. \<not> accepted env (cur_settings (s\<lparr>handled := handled s @ hs\<rparr>)) r"
    by simp
  from Cons.IH [OF this] obtain hs' where
    "run env (map Emit pre) (s\<lparr>handled := handled s @ hs\<rparr>)
       = s\<lparr>handled := handled s @ hs @ hs'\<rparr>"
    by auto
  with hs show ?case by (intro exI [of _ "hs @ hs'"]) simp
qed

lemma emit_logged_in:
  assumes "logged_in s"
  shows "logged_in (snd (emit env r s))" and "filter identity_call (sent env r s) = []"
proof -
  obtain ids cap ws where eff:
    "snd (send env r s)
       = s\<lparr>logged_in := logged_in s \<or> ids \<noteq> [], calls := calls s @ ids @ cap,
           warned := warned s @ ws\<rparr>"
    and ids: "logged_in s \<longrightarrow> ids = []"
    and cap: "cap = [] \<or> (\<exists>event_name log_extra.
            send_event env (cur_settings s) r = Inr (Some (event_name, log_extra))
            \<and> cap = [Capture (app_id (cur_settings s)) event_name log_extra])"
    using send_effect [of env r s] by blast
  obtain hs where hs: "snd (emit env r s) = (snd (send env r s))\<lparr>handled := handled s @ hs\<rparr>"
    using emit_snd [of env r s] by blast
  from hs eff assms show "logged_in (snd (emit env r s))" by simp
  from eff ids assms have "sent env r s = cap" by (simp add: sent_send)
  with cap show "filter identity_call (sent env r s) = []"
    by (auto simp: identity_call_def)
qed

lemma run_logged_in:
  assumes "logged_in s"
  shows "logged_in (run env as s)
    \<and> filter identity_call (calls (run env as s)) = filter identity_call (calls s)"
  using assms
proof (induction as arbitrary: s)
  case Nil
  then show ?case by simp
next
  case (Cons a as)
  show ?case
  proof (cases a)
    case (Emit r)
    from emit_logged_in [OF Cons.prems, of env r]
    have l: "logged_in (snd (emit env r s))"
      and f: "filter identity_call (sent env r s) = []" by simp_all
    have "calls (snd (emit env r s)) = calls s @ sent env r s" by (rule calls_emit)
    with f have "filter identity_call (calls (snd (emit env r s)))
        = filter identity_call (calls s)" by simp
    with Cons.IH [OF l] Emit show ?thesis by simp
  next
    case (Configure settings)
    from Cons.prems have "logged_in (settings_set settings s)"
      by (simp add: settings_set_def)
    from Cons.IH [OF this] Configure show ?thesis
      by (simp add: settings_set_def)
  next
    case ReadSettings
    from Cons.prems have "logged_in (snd (settings_get s))"
      by (simp add: settings_get_def)
    from Cons.IH [OF this] ReadSettings show ?thesis
      by (simp add: settings_get_def)
  qed
qed

lemma emit_first:
  assumes "\<not> logged_in s" and "user_id (cur_settings s) = Some uid" and "uid \<noteq> []"
    and "send_event env (cur_settings s) r = Inr (Some (e, p))"
  shows "logged_in (snd (emit env r s))"
    and "posthog env (calls s) (identify_of (cur_settings s) uid) = Inl x
         \<Longrightarrow> emit env r s =
               (Inr (), s\<lparr>logged_in := True,
                          calls := calls s @ [identify_of (cur_settings s) uid],
                          handled := handled s @ [(r, x)]\<rparr>)"
    and "posthog env (calls s) (identify_of (cur_settings s) uid) = Inr v
         \<Longrightarrow> posthog env (calls s @ [identify_of (cur_settings s) uid])
               (Alias uid (app_id (cur_settings s))) = Inl x
         \<Longrightarrow> emit env r s =
               (Inr (), s\<lparr>logged_in := True,
                          calls := calls s @ [identify_of (cur_settings s) uid,
                                              Alias uid (app_id (cur_settings s))],
                          handled := handled s @ [(r, x)]\<rparr>)"
    and "posthog env (calls s) (identify_of (cur_settings s) uid) = Inr v
         \<Longrightarrow> posthog env (calls s @ [identify_of (cur_settings s) uid])
               (Alias uid (app_id (cur_settings s))) = Inr v'
         \<Longrightarrow> sent env r s =
               [identify_of (cur_settings s) uid, Alias uid (app_id (cur_settings s)),
                Capture (app_id (cur_settings s)) e p]"
proof -
  note first = send_identify_first [OF assms(1-3), of env]
  obtain ids where ids: "snd (send_identify env s)
      = s\<lparr>logged_in := logged_in s \<or> ids \<noteq> [], calls := calls s @ ids\<rparr>"
    using send_identify_effect [of env s] by blast
  from first have l1: "logged_in (snd (send_identify env s))"
    by (auto split: sum.splits)
  obtain y s1 where y: "send_identify env s = (y, s1)" by (cases "send_identify env s")
  with l1 have s1: "logged_in s1" by simp
  have "logged_in (snd (send env r s))"
  proof (cases y)
    case (Inl x)
    with y assms(4) s1 show ?thesis by (simp add: send_def)
  next
    case (Inr u)
    obtain ws where "snd (send_capture env e p s1)
        = s1\<lparr>calls := calls s1 @ [Capture (app_id (cur_settings s1)) e p],
             warned := warned s1 @ ws\<rparr>"
      using send_capture_effect [of env e p s1] by blast
    with Inr y assms(4) s1 show ?thesis by (simp add: send_def)
  qed
  moreover obtain hs where
    "snd (emit env r s) = (snd (send env r s))\<lparr>handled := handled s @ hs\<rparr>"
    using emit_snd [of env r s] by blast
  ultimately show "logged_in (snd (emit env r s))" by simp
next
  assume "posthog env (calls s) (identify_of (cur_settings s) uid) = Inl x"
  with send_identify_first [OF assms(1-3), of env] assms(4)
  show "emit env r s =
               (Inr (), s\<lparr>logged_in := True,
                          calls := calls s @ [identify_of (cur_settings s) uid],
                          handled := handled s @ [(r, x)]\<rparr>)"
    by (simp add: emit_def send_def handleError_def)
next
  assume "posthog env (calls s) (identify_of (cur_settings s) uid) = Inr v"
    and "posthog env (calls s @ [identify_of (cur_settings s) uid])
               (Alias uid (app_id (cur_settings s))) = Inl x"
  with send_identify_first [OF assms(1-3), of env] assms(4)
  show "emit env r s =
               (Inr (), s\<lparr>logged_in := True,
                          calls := calls s @ [identify_of (cur_settings s) uid,
                                              Alias uid (app_id (cur_settings s))],
                          handled := handled s @ [(r, x)]\<rparr>)"
    by (simp add: emit_def send_def handleError_def)
next
  assume "posthog env (calls s) (identify_of (cur_settings s) uid) = Inr v"
    and "posthog env (calls s @ [identify_of (cur_settings s) uid])
               (Alias uid (app_id (cur_settings s))) = Inr v'"
  with send_identify_first [OF assms(1-3), of env]
  have ident: "send_identify env s =
      (Inr (), s\<lparr>logged_in := True,
                 calls := calls s @ [identify_of (cur_settings s) uid,
                                     Alias uid (app_id (cur_settings s))]\<rparr>)"
    by simp
  let ?s1 = "s\<lparr>logged_in := True,
                 calls := calls s @ [identify_of (cur_settings s) uid,
                                     Alias uid (app_id (cur_settings s))]\<rparr>"
  obtain ws where "snd (send_capture env e p ?s1)
        = ?s1\<lparr>calls := calls ?s1 @ [Capture (app_id (cur_settings ?s1)) e p],
             warned := warned ?s1 @ ws\<rparr>"
    using send_capture_effect [of env e p ?s1] by blast
  with ident assms(4) show "sent env r s =
               [identify_of (cur_settings s) uid, Alias uid (app_id (cur_settings s)),
                Capture (app_id (cur_settings s)) e p]"
    by (simp add: sent_send send_def)
qed


lemma cur_settings_init: "cur_settings (init ref s0) = heap s0 ref"
  by (simp add: cur_settings_def init_def)

subsection \<open>C3: the identity calls are made once\<close>

text \<open>
  Claim C3, as amended. For a handler whose settings have a non-empty user id, the first
  accepted event triggers exactly one \<^verbatim>\<open>identify\<close> call (the user id with \<^verbatim>\<open>email\<close> and
  \<^verbatim>\<open>primaryUsage\<close>) and, when that call returns, exactly one \<^verbatim>\<open>alias\<close> call (the user id and
  the app id) after it; when \<^verbatim>\<open>identify\<close> raises, no \<^verbatim>\<open>alias\<close> call is made. Every later
  event on the same handler triggers neither. In the model: a handler is made by
  \<^verbatim>\<open>__init__\<close> on the settings at \<open>ref\<close>, whose user id is \<open>uid\<close>; it is given the records
  \<open>pre\<close>, none of them accepted, and then \<open>record\<close>, which is accepted. The \<^verbatim>\<open>identify\<close>
  calls of this \<^verbatim>\<open>emit\<close> are exactly one; its \<^verbatim>\<open>alias\<close> calls are exactly one if the client
  returned from \<^verbatim>\<open>identify\<close> and none if it raised; the \<^verbatim>\<open>identify\<close> call comes first; and
  whatever the handler is given afterwards (records, new settings, reads of the
  settings), no \<^verbatim>\<open>emit\<close> makes an identity call again.
\<close>

theorem identity_sequence_once:
  assumes "user_id (heap s0 ref) = Some uid" and "uid \<noteq> []"
    and "\<forall>r \<in> set pre. \<not> accepted env (heap s0 ref) r"
    and "accepted env (heap s0 ref) record"
  shows "filter is_identify (sent env record (run env (map Emit pre) (init ref s0)))
           = [Identify uid [(''email'', opt_str (user_email (heap s0 ref))),
                            (''primaryUsage'', opt_str (user_primary_usage (heap s0 ref)))]]
    \<and> filter is_alias (sent env record (run env (map Emit pre) (init ref s0)))
         = (case posthog env (calls s0) (identify_of (heap s0 ref) uid) of
              Inr v \<Rightarrow> [Alias uid (app_id (heap s0 ref))]
            | Inl x \<Rightarrow> [])
    \<and> filter identity_call (sent env record (run env (map Emit pre) (init ref s0)))
         = identify_of (heap s0 ref) uid
             # filter is_alias (sent env record (run env (map Emit pre) (init ref s0)))
    \<and> (\<forall>as r'. filter identity_call
           (sent env r'
              (run env as (snd (emit env record (run env (map Emit pre) (init ref s0))))))
           = [])"
proof -
  let ?st = "heap s0 ref"
  let ?s = "run env (map Emit pre) (init ref s0)"
  let ?I = "identify_of ?st uid"
  let ?A = "Alias uid (app_id ?st)"
  from assms(3) have "\<forall>r \<in> set pre. \<not> accepted env (cur_settings (init ref s0)) r"
    by (simp add: cur_settings_init)
  then obtain hs where "?s = (init ref s0)\<lparr>handled := handled (init ref s0) @ hs\<rparr>"
    using run_not_accepted by blast
  then have st: "cur_settings ?s = ?st" and l: "\<not> logged_in ?s" and c: "calls ?s = calls s0"
    by (simp_all add: cur_settings_def init_def)
  from assms(4) st obtain e p where ev: "send_event env (cur_settings ?s) record = Inr (Some (e, p))"
    by (auto simp: accepted_iff)
  from assms(1) st have u: "user_id (cur_settings ?s) = Some uid" by simp
  note first = emit_first [OF l u assms(2) ev]
  have kinds: "is_identify ?I" "\<not> is_alias ?I" "is_alias ?A" "\<not> is_identify ?A"
    "\<not> is_identify (Capture a e' p')" "\<not> is_alias (Capture a e' p')" for a e' p'
    by (simp_all add: identify_of_def)
  have sent: "sent env record ?s =
      (case posthog env (calls s0) ?I of
         Inl x \<Rightarrow> [?I]
       | Inr v \<Rightarrow>
           (case posthog env (calls s0 @ [?I]) ?A of
              Inl x \<Rightarrow> [?I, ?A]
            | Inr v' \<Rightarrow> [?I, ?A, Capture (app_id ?st) e p]))"
  proof (cases "posthog env (calls s0) ?I")
    case (Inl x)
    with first(2) [of x] st c have "sent env record ?s = [?I]"
      by (simp add: sent_def)
    with Inl show ?thesis by simp
  next
    case (Inr v)
    then have ret: "posthog env (calls ?s) (identify_of (cur_settings ?s) uid) = Inr v"
      by (simp add: st c)
    show ?thesis
    proof (cases "posthog env (calls s0 @ [?I]) ?A")
      case (Inl x)
      then have "posthog env (calls ?s @ [identify_of (cur_settings ?s) uid])
                   (Alias uid (app_id (cur_settings ?s))) = Inl x"
        by (simp add: st c)
      from first(3) [OF ret this] have "sent env record ?s = [?I, ?A]"
        by (simp add: sent_def st)
      with Inl Inr show ?thesis by simp
    next
      case (Inr v')
      then have "posthog env (calls ?s @ [identify_of (cur_settings ?s) uid])
                   (Alias uid (app_id (cur_settings ?s))) = Inr v'"
        by (simp add: st c)
      from first(4) [OF ret this] have "sent env record ?s = [?I, ?A, Capture (app_id ?st) e p]"
        by (simp add: st)
      with Inr \<open>posthog env (calls s0) ?I = Inr v\<close> show ?thesis by simp
    qed
  qed
  have one: "filter is_identify (sent env record ?s)
           = [Identify uid [(''email'', opt_str (user_email ?st)),
                            (''primaryUsage'', opt_str (user_primary_usage ?st))]]"
    using kinds by (simp add: sent split: sum.splits) (simp add: identify_of_def)
  have two: "filter is_alias (sent env record ?s)
         = (case posthog env (calls s0) ?I of Inr v \<Rightarrow> [?A] | Inl x \<Rightarrow> [])"
    using kinds by (simp add: sent split: sum.splits)
  have three: "filter identity_call (sent env record ?s)
         = ?I # filter is_alias (sent env record ?s)"
    using kinds by (simp add: sent identity_call_def split: sum.splits)
  from first(1) have "logged_in (snd (emit env record ?s))" .
  then have "logged_in (run env as (snd (emit env record ?s)))" for as
    using run_logged_in by blast
  then have "filter identity_call (sent env r' (run env as (snd (emit env record ?s)))) = []"
    for as r'
    using emit_logged_in(2) by blast
  with one two three show ?thesis by blast
qed

text \<open>
  A new handler for a known user, with the quiet collaborators: an \<^verbatim>\<open>INFO\<close> record is
  not accepted, the first \<^verbatim>\<open>ERROR\<close> record makes the two identity calls, the second makes
  none.
\<close>

theorem identity_sequence_once_witness:
  "user_id (heap (store_with known_user) 0) = Some ''user-1''
   \<and> \<not> accepted quiet_env (heap (store_with known_user) 0) (info_record ''the market is open'')
   \<and> accepted quiet_env (heap (store_with known_user) 0) (error_record ''no data'')
   \<and> filter identity_call
        (sent quiet_env (error_record ''no data'')
           (run quiet_env [Emit (info_record ''the market is open'')] (fresh known_user)))
       = [Identify ''user-1''
            [(''email'', PStr ''u@example.org''), (''primaryUsage'', PStr ''trading'')],
          Alias ''user-1'' ''app-1'']
   \<and> filter identity_call
        (sent quiet_env (error_record ''no data again'')
           (snd (emit quiet_env (error_record ''no data'')
              (run quiet_env [Emit (info_record ''the market is open'')] (fresh known_user)))))
       = []"
proof -
  have st: "heap (store_with known_user) 0 = known_user"
    by (simp add: store_with_def)
  have uk: "user_id known_user = Some ''user-1''"
    by (simp add: known_user_def)
  have a: "user_id (heap (store_with known_user) 0) = Some ''user-1''"
    by (simp only: st uk)
  have b: "''user-1'' \<noteq> []" by simp
  have "\<not> accepted quiet_env known_user (info_record ''the market is open'')"
    by code_simp
  then have c: "\<forall>r \<in> set [info_record ''the market is open''].
      \<not> accepted quiet_env (heap (store_with known_user) 0) r"
    by (simp add: st)
  have "accepted quiet_env known_user (error_record ''no data'')"
    by code_simp
  then have d: "accepted quiet_env (heap (store_with known_user) 0) (error_record ''no data'')"
    by (simp add: st)
  have e: "posthog quiet_env h k = Inr PNone" for h k
    by (simp add: quiet_env_def)
  have f: "identify_of known_user ''user-1''
      = Identify ''user-1''
          [(''email'', PStr ''u@example.org''), (''primaryUsage'', PStr ''trading'')]"
    "app_id known_user = ''app-1''"
    by (simp_all add: identify_of_def known_user_def anonymous_def opt_str_def)
  note inst = identity_sequence_once [OF a b c d]
  from inst have one: "filter identity_call
          (sent quiet_env (error_record ''no data'')
             (run quiet_env (map Emit [info_record ''the market is open''])
                (init 0 (store_with known_user))))
         = [Identify ''user-1''
              [(''email'', PStr ''u@example.org''), (''primaryUsage'', PStr ''trading'')],
            Alias ''user-1'' ''app-1'']"
    by (simp add: st e f)
  from inst have "filter identity_call
          (sent quiet_env (error_record ''no data again'')
             (run quiet_env []
                (snd (emit quiet_env (error_record ''no data'')
                   (run quiet_env (map Emit [info_record ''the market is open''])
                      (init 0 (store_with known_user)))))))
         = []"
    by blast
  with one have "filter identity_call
          (sent quiet_env (error_record ''no data'')
             (run quiet_env [Emit (info_record ''the market is open'')] (fresh known_user)))
         = [Identify ''user-1''
              [(''email'', PStr ''u@example.org''), (''primaryUsage'', PStr ''trading'')],
            Alias ''user-1'' ''app-1'']
     \<and> filter identity_call
          (sent quiet_env (error_record ''no data again'')
             (snd (emit quiet_env (error_record ''no data'')
                (run quiet_env [Emit (info_record ''the market is open'')]
                   (fresh known_user)))))
         = []"
    by (simp add: fresh_def)
  with a c d show ?thesis by simp
qed

text \<open>
  Claim C3 as it was stated fails when the client raises. With a client whose
  \<^verbatim>\<open>identify\<close> raises, the first accepted event of a new handler for a known user makes
  the \<^verbatim>\<open>identify\<close> call and no \<^verbatim>\<open>alias\<close> call.
\<close>

theorem identity_sequence_without_alias:
  "user_id (cur_settings (fresh known_user)) = Some ''user-1''
   \<and> accepted failing_env (cur_settings (fresh known_user)) (error_record ''no data'')
   \<and> sent failing_env (error_record ''no data'') (fresh known_user)
       = [Identify ''user-1''
            [(''email'', PStr ''u@example.org''), (''primaryUsage'', PStr ''trading'')]]
   \<and> filter is_alias (sent failing_env (error_record ''no data'') (fresh known_user)) = []"
proof -
  have st: "cur_settings (fresh known_user) = known_user"
    by (rule cur_settings_fresh)
  have uk: "user_id known_user = Some ''user-1''"
    by (simp add: known_user_def)
  have a: "user_id (cur_settings (fresh known_user)) = Some ''user-1''"
    by (simp only: st uk)
  have "accepted failing_env known_user (error_record ''no data'')"
    by code_simp
  then have b: "accepted failing_env (cur_settings (fresh known_user)) (error_record ''no data'')"
    by (simp add: st)
  then obtain e p where ev: "send_event failing_env (cur_settings (fresh known_user))
      (error_record ''no data'') = Inr (Some (e, p))"
    by (auto simp: accepted_iff)
  have l: "\<not> logged_in (fresh known_user)" and c: "calls (fresh known_user) = []"
    by (simp_all add: fresh_def store_with_def init_def)
  have f: "identify_of known_user ''user-1''
      = Identify ''user-1''
          [(''email'', PStr ''u@example.org''), (''primaryUsage'', PStr ''trading'')]"
    by (simp add: identify_of_def known_user_def anonymous_def opt_str_def)
  have "posthog failing_env (calls (fresh known_user))
          (identify_of (cur_settings (fresh known_user)) ''user-1'')
        = Inl (OtherException ''connection refused'')"
    by (simp add: failing_env_def identify_of_def)
  from emit_first(2) [OF l a _ ev this]
  have "sent failing_env (error_record ''no data'') (fresh known_user)
       = [Identify ''user-1''
            [(''email'', PStr ''u@example.org''), (''primaryUsage'', PStr ''trading'')]]"
    by (simp add: sent_def st c f)
  with a b show ?thesis by simp
qed

subsection \<open>C10: the flag is set before the identity calls\<close>

text \<open>
  Claim C10. \<^verbatim>\<open>logged_in\<close> is set before \<^verbatim>\<open>identify\<close> and \<^verbatim>\<open>alias\<close> are called; so if one
  of the two calls raises on the first accepted event of a handler with a non-empty user
  id, the flag stays set and no later \<^verbatim>\<open>emit\<close> on that handler attempts \<^verbatim>\<open>identify\<close> or
  \<^verbatim>\<open>alias\<close> again: the identity sequence is not retried, and not atomic with respect to
  errors. In the model, for a handler that has not identified, whose settings have the
  user id \<open>uid\<close>, and an accepted record: after \<^verbatim>\<open>emit\<close> the flag is set whatever the
  client did. If \<^verbatim>\<open>identify\<close> raises, the calls made are the \<^verbatim>\<open>identify\<close> call alone and
  the exception is handled; if \<^verbatim>\<open>alias\<close> raises, they are the two identity calls alone
  and the exception is handled. Whatever the handler is given afterwards, the flag stays
  set and no \<^verbatim>\<open>emit\<close> makes an identity call.
\<close>

theorem identity_not_retried:
  assumes "\<not> logged_in s" and "user_id (cur_settings s) = Some uid" and "uid \<noteq> []"
    and "accepted env (cur_settings s) record"
  shows "logged_in (snd (emit env record s))
    \<and> (\<forall>x. posthog env (calls s) (identify_of (cur_settings s) uid) = Inl x \<longrightarrow>
          emit env record s =
            (Inr (), s\<lparr>logged_in := True,
                       calls := calls s @ [identify_of (cur_settings s) uid],
                       handled := handled s @ [(record, x)]\<rparr>))
    \<and> (\<forall>v x. posthog env (calls s) (identify_of (cur_settings s) uid) = Inr v
          \<and> posthog env (calls s @ [identify_of (cur_settings s) uid])
                (Alias uid (app_id (cur_settings s))) = Inl x \<longrightarrow>
          emit env record s =
            (Inr (), s\<lparr>logged_in := True,
                       calls := calls s @ [identify_of (cur_settings s) uid,
                                           Alias uid (app_id (cur_settings s))],
                       handled := handled s @ [(record, x)]\<rparr>))
    \<and> (\<forall>as. logged_in (run env as (snd (emit env record s)))
          \<and> filter identity_call (calls (run env as (snd (emit env record s))))
              = filter identity_call (calls (snd (emit env record s)))
          \<and> (\<forall>r'. filter identity_call (sent env r' (run env as (snd (emit env record s))))
                    = []))"
proof -
  from assms(4) obtain e p where ev: "send_event env (cur_settings s) record = Inr (Some (e, p))"
    by (auto simp: accepted_iff)
  note first = emit_first [OF assms(1-3) ev]
  from first(1) have l: "logged_in (snd (emit env record s))" .
  have later: "logged_in (run env as (snd (emit env record s)))
          \<and> filter identity_call (calls (run env as (snd (emit env record s))))
              = filter identity_call (calls (snd (emit env record s)))
          \<and> (\<forall>r'. filter identity_call (sent env r' (run env as (snd (emit env record s))))
                    = [])" for as
  proof -
    from run_logged_in [OF l, of env as]
    have r: "logged_in (run env as (snd (emit env record s)))"
      and c: "filter identity_call (calls (run env as (snd (emit env record s))))
              = filter identity_call (calls (snd (emit env record s)))"
      by simp_all
    from emit_logged_in(2) [OF r]
    have "\<forall>r'. filter identity_call (sent env r' (run env as (snd (emit env record s)))) = []"
      by blast
    with r c show ?thesis by blast
  qed
  from l first(2) first(3) later show ?thesis by blast
qed

text \<open>
  A client whose \<^verbatim>\<open>identify\<close> raises: the first \<^verbatim>\<open>ERROR\<close> record leaves the flag set with
  the \<^verbatim>\<open>identify\<close> call alone and the error handled; the next record is forwarded
  without any identity call.
\<close>

theorem identity_not_retried_witness:
  "\<not> logged_in (fresh known_user)
   \<and> accepted failing_env (cur_settings (fresh known_user)) (error_record ''no data'')
   \<and> emit failing_env (error_record ''no data'') (fresh known_user)
       = (Inr (),
          (fresh known_user)
            \<lparr>logged_in := True,
             calls := [Identify ''user-1''
                         [(''email'', PStr ''u@example.org''),
                          (''primaryUsage'', PStr ''trading'')]],
             handled := [(error_record ''no data'', OtherException ''connection refused'')]\<rparr>)
   \<and> filter identity_call
        (sent failing_env (error_record ''no data again'')
           (snd (emit failing_env (error_record ''no data'') (fresh known_user))))
       = []"
proof -
  have st: "cur_settings (fresh known_user) = known_user"
    by (rule cur_settings_fresh)
  have a: "\<not> logged_in (fresh known_user)"
    by (simp add: fresh_def init_def)
  have uk: "user_id known_user = Some ''user-1''"
    by (simp add: known_user_def)
  have b: "user_id (cur_settings (fresh known_user)) = Some ''user-1''"
    by (simp only: st uk)
  have c: "''user-1'' \<noteq> []" by simp
  have "accepted failing_env known_user (error_record ''no data'')"
    by code_simp
  then have d: "accepted failing_env (cur_settings (fresh known_user)) (error_record ''no data'')"
    by (simp add: st)
  have e: "posthog failing_env (calls (fresh known_user))
             (identify_of (cur_settings (fresh known_user)) ''user-1'')
           = Inl (OtherException ''connection refused'')"
    by (simp add: failing_env_def identify_of_def)
  have f: "identify_of known_user ''user-1''
      = Identify ''user-1''
          [(''email'', PStr ''u@example.org''), (''primaryUsage'', PStr ''trading'')]"
    by (simp add: identify_of_def known_user_def anonymous_def opt_str_def)
  have g: "calls (fresh known_user) = []" "handled (fresh known_user) = []"
    by (simp_all add: fresh_def store_with_def init_def)
  note inst = identity_not_retried [OF a b c d]
  from inst e have "emit failing_env (error_record ''no data'') (fresh known_user)
       = (Inr (),
          (fresh known_user)
            \<lparr>logged_in := True,
             calls := calls (fresh known_user)
                        @ [identify_of (cur_settings (fresh known_user)) ''user-1''],
             handled := handled (fresh known_user)
                        @ [(error_record ''no data'', OtherException ''connection refused'')]\<rparr>)"
    by blast
  then have h: "emit failing_env (error_record ''no data'') (fresh known_user)
       = (Inr (),
          (fresh known_user)
            \<lparr>logged_in := True,
             calls := [Identify ''user-1''
                         [(''email'', PStr ''u@example.org''),
                          (''primaryUsage'', PStr ''trading'')]],
             handled := [(error_record ''no data'', OtherException ''connection refused'')]\<rparr>)"
    by (simp add: st f g)
  from inst have "filter identity_call
        (sent failing_env (error_record ''no data again'')
           (run failing_env [] (snd (emit failing_env (error_record ''no data'') (fresh known_user)))))
       = []"
    by blast
  with a d h show ?thesis by simp
qed

end
